theory Spec2Isabelle
  imports Main "HOL-Library.Sublist" "HOL-Library.List_Lexorder" "HOL-Library.Char_ord"
    "HOL-Library.AList"
begin

section \<open>Python strings and sets as the interpreters use them\<close>

text \<open>
  A Python \<open>str\<close> is a \<^typ>\<open>string\<close>. \<open>s.startswith(t)\<close> is \<open>prefix t s\<close>, the test
  \<open>i in line\<close> on two strings is the contiguous-substring test \<open>sublist i line\<close>, and the
  slice \<open>a[n:]\<close> is \<open>drop n a\<close>.
\<close>

definition startswith :: "string \<Rightarrow> string \<Rightarrow> bool" where
  "startswith s t = prefix t s"

definition str_in :: "string \<Rightarrow> string \<Rightarrow> bool" where
  "str_in i line = sublist i line"

text \<open>
  A Python \<open>set\<close> built from an iterable is modelled by the list of its distinct members.
  The order in which Python iterates a set is not specified; the model enumerates in the
  order of first occurrence, and no theorem below depends on that order.
\<close>

definition py_set :: "'a list \<Rightarrow> 'a list" where
  "py_set xs = remdups xs"

section \<open>CacheCompleteMix\<close>

text \<open>
  The mix-in's state: the private dictionary \<open>__cache\<close> and the pluggable attribute
  \<open>completion_source\<close>, called with the key. A cached value is the iterable of candidate
  strings the source returned.
\<close>

record 'k cache_mix =
  cache :: "'k \<rightharpoonup> string list"
  completion_source :: "'k \<Rightarrow> string list"

text \<open>\<open>__init__\<close>: an empty cache and the source \<open>lambda *args: []\<close>.\<close>

definition cache_mix_init :: "'k cache_mix" where
  "cache_mix_init = \<lparr>cache = Map.empty, completion_source = (\<lambda>_. [])\<rparr>"

text \<open>The comprehension both branches of \<open>_cache_completion\<close> return.\<close>

definition cache_filter :: "string list \<Rightarrow> string \<Rightarrow> string \<Rightarrow> string list" where
  "cache_filter opts text line =
     filter (\<lambda>i. startswith i text \<and> \<not> str_in i line) (py_set opts)"

text \<open>
  \<open>_cache_completion(key, text, line, begidx, endidx)\<close>: the \<open>try\<close> branch reads
  \<open>self.__cache[key]\<close>; the \<open>except KeyError\<close> branch stores
  \<open>self.completion_source(key)\<close> under the key and filters that. The result is the returned
  list together with the state after the call.
\<close>

definition cache_completion ::
  "'k cache_mix \<Rightarrow> 'k \<Rightarrow> string \<Rightarrow> string \<Rightarrow> int \<Rightarrow> int \<Rightarrow> string list \<times> 'k cache_mix" where
  "cache_completion s key text line begidx endidx =
     (case cache s key of
        Some opts \<Rightarrow> (cache_filter opts text line, s)
      | None \<Rightarrow>
          (let s' = s\<lparr>cache := (cache s)(key \<mapsto> completion_source s key)\<rparr>
           in (cache_filter (completion_source s key) text line, s')))"

section \<open>Whitespace, splitting and joining\<close>

text \<open>
  A \<^typ>\<open>char\<close> stands for a code point below 256. The characters \<open>str.strip\<close>,
  \<open>str.lstrip\<close> and \<open>str.rstrip\<close> remove when called without an argument are, in that range:
  tab, line feed, vertical tab, form feed, carriage return, the four separators \<open>0x1C\<close> to
  \<open>0x1F\<close>, the space, the next-line control \<open>0x85\<close> and the no-break space \<open>0xA0\<close>.
\<close>

definition newline :: char where
  "newline = CHR 0x0A"

definition isspace :: "char \<Rightarrow> bool" where
  "isspace c = (c \<in> set [CHR 0x09, CHR 0x0A, CHR 0x0B, CHR 0x0C, CHR 0x0D,
                           CHR 0x1C, CHR 0x1D, CHR 0x1E, CHR 0x1F, CHR 0x20,
                           CHR 0x85, CHR 0xA0])"

definition lstrip :: "string \<Rightarrow> string" where
  "lstrip s = dropWhile isspace s"

definition rstrip :: "string \<Rightarrow> string" where
  "rstrip s = rev (dropWhile isspace (rev s))"

definition strip :: "string \<Rightarrow> string" where
  "strip s = lstrip (rstrip s)"

text \<open>\<open>s.split(sep)\<close> with a one-character separator: empty fields are kept.\<close>

fun split_on :: "char \<Rightarrow> string \<Rightarrow> string list" where
  "split_on sep [] = [[]]"
| "split_on sep (c # cs) =
     (if c = sep then [] # split_on sep cs
      else (case split_on sep cs of
              w # ws \<Rightarrow> (c # w) # ws
            | [] \<Rightarrow> [[c]]))"

text \<open>\<open>sep.join(xs)\<close>.\<close>

fun str_join :: "string \<Rightarrow> string list \<Rightarrow> string" where
  "str_join sep [] = []"
| "str_join sep [x] = x"
| "str_join sep (x # y # ys) = x @ sep @ str_join sep (y # ys)"

text \<open>
  Indexing a list with a Python integer, \<open>xs[i]\<close>: a negative index counts from the end,
  and \<open>None\<close> stands for the \<open>IndexError\<close> an index out of range raises.
\<close>

definition list_get :: "'a list \<Rightarrow> int \<Rightarrow> 'a option" where
  "list_get xs i =
     (let n = int (length xs); j = (if i < 0 then n + i else i)
      in if 0 \<le> j \<and> j < n then Some (xs ! nat j) else None)"

section \<open>utils.trim\_docstring\<close>

text \<open>\<open>sys.maxsize\<close> on a 64-bit build.\<close>

definition maxsize :: nat where
  "maxsize = 9223372036854775807"

text \<open>
  \<open>str.expandtabs()\<close> with the default tab size 8: a tab becomes the spaces up to the next
  multiple of 8, and the column starts again at 0 after a line feed or a carriage return.
\<close>

fun expandtabs_from :: "nat \<Rightarrow> string \<Rightarrow> string" where
  "expandtabs_from col [] = []"
| "expandtabs_from col (c # cs) =
     (if c = CHR 0x09 then
        (let incr = 8 - col mod 8 in replicate incr (CHR 0x20) @ expandtabs_from (col + incr) cs)
      else if c = CHR 0x0A \<or> c = CHR 0x0D then c # expandtabs_from 0 cs
      else c # expandtabs_from (col + 1) cs)"

definition expandtabs :: "string \<Rightarrow> string" where
  "expandtabs s = expandtabs_from 0 s"

text \<open>
  \<open>str.splitlines()\<close>: the line boundaries below 256 are line feed, carriage return (with
  a line feed right after it taken as part of the same boundary), vertical tab, form feed,
  the separators \<open>0x1C\<close> to \<open>0x1E\<close> and the next-line control \<open>0x85\<close>. A boundary at the very
  end opens no further line.
\<close>

definition is_linebreak :: "char \<Rightarrow> bool" where
  "is_linebreak c =
     (c \<in> set [CHR 0x0A, CHR 0x0B, CHR 0x0C, CHR 0x0D, CHR 0x1C, CHR 0x1D, CHR 0x1E, CHR 0x85])"

fun splitlines_from :: "string \<Rightarrow> string \<Rightarrow> string list" where
  "splitlines_from cur [] = (if cur = [] then [] else [cur])"
| "splitlines_from cur [c] = (if is_linebreak c then [cur] else [cur @ [c]])"
| "splitlines_from cur (c # d # cs) =
     (if c = CHR 0x0D \<and> d = CHR 0x0A then cur # splitlines_from [] cs
      else if is_linebreak c then cur # splitlines_from [] (d # cs)
      else splitlines_from (cur @ [c]) (d # cs))"

definition splitlines :: "string \<Rightarrow> string list" where
  "splitlines s = splitlines_from [] s"

text \<open>The loop that determines the minimum indentation of the lines after the first.\<close>

definition min_indent :: "string list \<Rightarrow> nat" where
  "min_indent ls =
     fold (\<lambda>line indent.
             (let stripped = lstrip line
              in if stripped \<noteq> [] then min indent (length line - length stripped) else indent))
          ls maxsize"

text \<open>
  \<open>trim_docstring(docstring)\<close>. \<open>lines[0]\<close> is read only when the docstring is not empty,
  and then \<open>lines\<close> has a first element (lemma \<open>splitlines_expandtabs_nonempty\<close> below), so
  the empty case of the \<open>case\<close> is never taken.
\<close>

definition trim_docstring :: "string \<Rightarrow> string" where
  "trim_docstring docstring =
     (if docstring = [] then []
      else (case splitlines (expandtabs docstring) of
              [] \<Rightarrow> []
            | first # rest \<Rightarrow>
                (let indent = min_indent rest;
                     trimmed = strip first #
                       (if indent < maxsize then map (\<lambda>line. rstrip (drop indent line)) rest else []);
                     trimmed = rev (dropWhile (\<lambda>l. l = []) (rev trimmed));
                     trimmed = dropWhile (\<lambda>l. l = []) trimmed
                 in str_join [newline] trimmed)))"

section \<open>The interpreter object\<close>

text \<open>
  The exceptions the modelled code can raise.
\<close>

datatype error = AttributeError | IndexError | TypeError

text \<open>
  The interpreters find commands, aliases, help providers and completers by attribute name,
  and read three things from such an attribute: its \<open>__name__\<close>, its \<open>__doc__\<close> (which may
  be \<open>None\<close>) and the function it calls. \<open>m_func\<close> identifies that function; two attributes
  call the same handler exactly when they hold the same method.
\<close>

record pymethod =
  m_name :: string
  m_doc :: "string option"
  m_func :: nat

text \<open>
  An interpreter instance. \<open>cls\<close> holds the methods its class defines or inherits, \<open>inst\<close>
  the methods stored in the instance's own \<open>__dict__\<close> (where \<open>setattr\<close> puts them).
  Attributes that are not methods (\<open>prompt\<close>, \<open>aliases\<close>, \<open>cmdqueue\<close>, ...) are left out of
  both: none of their names starts with \<open>do_\<close>, \<open>alias_\<close>, \<open>help_\<close> or \<open>complete_\<close>, the
  only names the code looks for. The remaining fields are the attributes the code reads
  and writes: the class flag \<open>SHOW_ALIAS\<close>, the set \<open>aliases\<close>, the list
  \<open>completion_matches\<close> (absent until \<open>complete\<close> stores it), \<open>lastcmd\<close>, and the text
  written to \<open>stdout\<close> so far.
\<close>

record interp =
  cls :: "(string \<times> pymethod) list"
  inst :: "(string \<times> pymethod) list"
  SHOW_ALIAS :: bool
  aliases :: "string list"
  completion_matches :: "string list option"
  lastcmd :: string
  stdout :: string

text \<open>
  Attribute access. \<open>getattr\<close> finds an instance entry before a class entry; \<open>None\<close> stands
  for \<open>AttributeError\<close>. \<open>setattr\<close> writes the instance dictionary. \<open>delattr\<close> removes an
  entry of the instance dictionary and raises \<open>AttributeError\<close> when the instance has none,
  also when the class defines the name.
\<close>

definition getattr :: "interp \<Rightarrow> string \<Rightarrow> pymethod option" where
  "getattr st n = (case map_of (inst st) n of Some m \<Rightarrow> Some m | None \<Rightarrow> map_of (cls st) n)"

definition hasattr :: "interp \<Rightarrow> string \<Rightarrow> bool" where
  "hasattr st n = (getattr st n \<noteq> None)"

definition setattr :: "interp \<Rightarrow> string \<Rightarrow> pymethod \<Rightarrow> interp" where
  "setattr st n m = st\<lparr>inst := AList.update n m (inst st)\<rparr>"

definition delattr :: "interp \<Rightarrow> string \<Rightarrow> error + interp" where
  "delattr st n =
     (if n \<in> set (map fst (inst st)) then Inr (st\<lparr>inst := AList.delete n (inst st)\<rparr>)
      else Inl AttributeError)"

section \<open>AliasMix\<close>

definition ALIAS_PREFIX :: string where
  "ALIAS_PREFIX = ''alias_''"

definition wrap_alias :: "string \<Rightarrow> string" where
  "wrap_alias alias = ALIAS_PREFIX @ alias"

text \<open>\<open>get_names\<close> is \<open>dir(self)\<close>: the attribute names, each once, sorted.\<close>

definition get_names :: "interp \<Rightarrow> string list" where
  "get_names st = sort (remdups (map fst (inst st) @ map fst (cls st)))"

definition get_aliases :: "interp \<Rightarrow> string list" where
  "get_aliases st = py_set (map (drop 6) (filter (\<lambda>i. startswith i ALIAS_PREFIX) (get_names st)))"

text \<open>
  \<open>getattr(self, a).__doc__ is not None\<close> for a name \<open>a\<close> taken from \<open>get_names\<close>.
\<close>

definition doc_not_None :: "interp \<Rightarrow> string \<Rightarrow> bool" where
  "doc_not_None st a = (case getattr st a of Some m \<Rightarrow> m_doc m \<noteq> None | None \<Rightarrow> False)"

definition completedefault :: "interp \<Rightarrow> string list" where
  "completedefault st =
     map (drop 3) (filter (\<lambda>i. startswith i ''do_'' \<and> \<not> str_in ''EOF'' i) (get_names st))"

definition completenames :: "interp \<Rightarrow> string \<Rightarrow> string list" where
  "completenames st text =
     (let names = get_names st;
          cmds = map (drop 3)
                   (filter (\<lambda>a. startswith a (''do_'' @ text) \<and> doc_not_None st a) names);
          aliases =
            (if SHOW_ALIAS st then
               map (drop 6)
                 (filter (\<lambda>a. startswith a (ALIAS_PREFIX @ text) \<and> doc_not_None st a) names)
             else [])
      in cmds @ aliases)"

text \<open>The two comprehensions of \<open>completenames\<close>, each on its own.\<close>

definition cmds_of :: "interp \<Rightarrow> string \<Rightarrow> string list" where
  "cmds_of st p = map (drop 3)
     (filter (\<lambda>a. startswith a (''do_'' @ p) \<and> doc_not_None st a) (get_names st))"

definition aliases_of :: "interp \<Rightarrow> string \<Rightarrow> string list" where
  "aliases_of st p = map (drop 6)
     (filter (\<lambda>a. startswith a (ALIAS_PREFIX @ p) \<and> doc_not_None st a) (get_names st))"

text \<open>
  What the two comprehensions test, said of the name without its prefix: \<open>c\<close> is a command
  candidate for the prefix \<open>p\<close> when there is an attribute \<open>do_c\<close>, \<open>c\<close> starts with \<open>p\<close> and the
  \<open>__doc__\<close> of the attribute is not \<open>None\<close>; an alias candidate is the same for \<open>alias_c\<close>.
\<close>

definition command_candidate :: "interp \<Rightarrow> string \<Rightarrow> string \<Rightarrow> bool" where
  "command_candidate st p c =
     (case getattr st (''do_'' @ c) of Some m \<Rightarrow> prefix p c \<and> m_doc m \<noteq> None | None \<Rightarrow> False)"

definition alias_candidate :: "interp \<Rightarrow> string \<Rightarrow> string \<Rightarrow> bool" where
  "alias_candidate st p c =
     (case getattr st (wrap_alias c) of Some m \<Rightarrow> prefix p c \<and> m_doc m \<noteq> None | None \<Rightarrow> False)"


subsection \<open>Parsing a line (inherited from cmd.Cmd)\<close>

text \<open>
  \<open>parseline\<close> is the standard library's: the line is stripped; an empty line, and a line
  starting with \<open>!\<close> when there is no \<open>do_shell\<close>, give \<open>(None, None, line)\<close>; a leading
  \<open>?\<close> is rewritten to \<open>help\<close> and a leading \<open>!\<close> to \<open>shell\<close>; the command is the longest
  prefix of \<open>identchars\<close> and the argument the stripped rest. The first component is
  \<open>None\<close> when the command and the argument are \<open>None\<close>.
\<close>

definition identchars :: string where
  "identchars = ''abcdefghijklmnopqrstuvwxyzABCDEFGHIJKLMNOPQRSTUVWXYZ0123456789_''"

definition parseline :: "interp \<Rightarrow> string \<Rightarrow> (string \<times> string) option \<times> string" where
  "parseline st line0 =
     (let line = strip line0 in
      (case line of
         [] \<Rightarrow> (None, line)
       | c # rest \<Rightarrow>
          (if c = CHR ''!'' \<and> \<not> hasattr st ''do_shell'' then (None, line)
           else
             (let line = (if c = CHR ''?'' then ''help '' @ rest
                          else if c = CHR ''!'' then ''shell '' @ rest
                          else line);
                  cmd = takeWhile (\<lambda>x. x \<in> set identchars) line;
                  arg = strip (dropWhile (\<lambda>x. x \<in> set identchars) line)
              in (Some (cmd, arg), line)))))"

text \<open>A name that \<open>parseline\<close> reads as one command: not empty, of \<open>identchars\<close> only.\<close>

definition command_name :: "string \<Rightarrow> bool" where
  "command_name s = (s \<noteq> [] \<and> list_all (\<lambda>c. c \<in> set identchars) s)"

text \<open>
  What is left of \<open>' ' + s\<close> behind a command name once the line is stripped: nothing when
  \<open>s\<close> is white space only, else the space and \<open>s\<close> without its trailing white space.
\<close>

definition rest_of :: "string \<Rightarrow> string" where
  "rest_of s = (if \<forall>x \<in> set s. isspace x then [] else CHR '' '' # rstrip s)"


subsection \<open>Dispatch\<close>

text \<open>
  What a dispatch or a built-in command comes to: \<open>Call m args\<close> says that method \<open>m\<close> is
  called with the arguments \<open>args\<close> and that its result is the result (what the call then
  writes and returns is the method's own); \<open>Emptyline\<close> that the inherited \<open>emptyline\<close> is
  called; \<open>Topics d m u\<close> that \<open>print_topics\<close> is called for the documented commands \<open>d\<close>,
  the miscellaneous help topics \<open>m\<close> and the undocumented commands \<open>u\<close>, in this order;
  \<open>Returned v\<close> that the code itself returned \<open>v\<close>, \<open>None\<close> or a string.
\<close>

datatype effect =
    Call pymethod "string list"
  | Emptyline
  | Topics "string list" "string list" "string list"
  | Returned "string option"

definition stdout_write :: "interp \<Rightarrow> string \<Rightarrow> interp" where
  "stdout_write st s = st\<lparr>stdout := stdout st @ s\<rparr>"

text \<open>
  \<open>AliasMix.default(line)\<close>. \<open>dir(self)\<close> is never empty, so when \<open>parseline\<close> gives
  \<open>None\<close> for the command the comprehension evaluates \<open>'do_' + cmd\<close> and raises
  \<open>TypeError\<close>. \<open>getattr(self, n, None)\<close> of a name without attribute is \<open>None\<close>, and calling
  it raises \<open>TypeError\<close>. Without a match, the inherited \<open>default\<close> writes the unknown-syntax
  message and \<open>None\<close> is returned.
\<close>

definition default :: "interp \<Rightarrow> string \<Rightarrow> error + effect \<times> interp" where
  "default st line0 =
     (case parseline st line0 of
        (None, line) \<Rightarrow> Inl TypeError
      | (Some (cmd, arg), line) \<Rightarrow>
          (case filter (\<lambda>n. n = ''do_'' @ cmd \<or> n = wrap_alias cmd) (get_names st) of
             n # _ \<Rightarrow>
               (case getattr st n of
                  Some f \<Rightarrow> Inr (Call f [arg], st)
                | None \<Rightarrow> Inl TypeError)
           | [] \<Rightarrow> Inr (Returned None, stdout_write st (''*** Unknown syntax: '' @ line @ [newline]))))"

text \<open>
  \<open>onecmd(line)\<close>, the standard library's entry for one line: an empty line goes to
  \<open>emptyline\<close>; a line without command, with an empty command or with a command that has no
  \<open>do_\<close> attribute goes to \<open>default\<close>; otherwise the \<open>do_\<close> method is called with the
  argument.
\<close>

definition onecmd :: "interp \<Rightarrow> string \<Rightarrow> error + effect \<times> interp" where
  "onecmd st line0 =
     (case parseline st line0 of
        (parsed, line) \<Rightarrow>
          (if line = [] then Inr (Emptyline, st)
           else
             (case parsed of
                None \<Rightarrow> default st line
              | Some (cmd, arg) \<Rightarrow>
                  (let st = st\<lparr>lastcmd := (if line = ''EOF'' then [] else line)\<rparr>
                   in if cmd = [] then default st line
                      else (case getattr st (''do_'' @ cmd) of
                              None \<Rightarrow> default st line
                            | Some func \<Rightarrow> Inr (Call func [arg], st))))))"

subsection \<open>Completion requests\<close>

text \<open>What \<open>readline\<close> reports when \<open>complete\<close> is called with state 0.\<close>

record readline =
  line_buffer :: string
  rl_begidx :: int
  rl_endidx :: int

text \<open>The completion function \<open>complete\<close> selects.\<close>

datatype compfunc = Completedefault | Completenames | Completer pymethod

text \<open>
  The selection made when the state is 0 and \<open>begidx > 0\<close>. A \<open>None\<close> command makes
  \<open>'complete_' + cmd\<close> raise \<open>TypeError\<close>, which the \<open>except AttributeError\<close> clauses let
  through. Otherwise the completer of the command is looked up, then the completer named
  after the function the alias is bound to, and \<open>completedefault\<close> is what remains.
\<close>

definition select_compfunc :: "interp \<Rightarrow> string \<Rightarrow> error + compfunc" where
  "select_compfunc st line =
     (case fst (parseline st line) of
        None \<Rightarrow> Inl TypeError
      | Some (cmd, args) \<Rightarrow>
          (if cmd = [] then Inr Completedefault
           else
             (case getattr st (''complete_'' @ cmd) of
                Some f \<Rightarrow> Inr (Completer f)
              | None \<Rightarrow>
                  (case getattr st (wrap_alias cmd) of
                     None \<Rightarrow> Inr Completedefault
                   | Some a \<Rightarrow>
                       (case getattr st (''complete_'' @ drop 3 (m_name a)) of
                          Some f \<Rightarrow> Inr (Completer f)
                        | None \<Rightarrow> Inr Completedefault)))))"

text \<open>
  \<open>complete(text, state)\<close>. A completer method is code of the shell built on the
  interpreter; \<open>run\<close> gives the list such a method returns for
  \<open>(text, line, begidx, endidx)\<close>. With state 0 the candidate list is computed and stored;
  then, for every state, \<open>self.completion_matches[state]\<close> is returned, or \<open>None\<close> on
  \<open>IndexError\<close>. Reading \<open>completion_matches\<close> before any call has stored it raises
  \<open>AttributeError\<close>.
\<close>

definition complete ::
  "(pymethod \<Rightarrow> string \<Rightarrow> string \<Rightarrow> int \<Rightarrow> int \<Rightarrow> string list) \<Rightarrow> interp \<Rightarrow> readline \<Rightarrow>
     string \<Rightarrow> int \<Rightarrow> error + string option \<times> interp" where
  "complete run st rl text state =
     (case
        (if state = 0 then
           (let origline = line_buffer rl;
                line = lstrip origline;
                stripped = int (length origline) - int (length line);
                begidx = rl_begidx rl - stripped;
                endidx = rl_endidx rl - stripped
            in case (if begidx > 0 then select_compfunc st line else Inr Completenames) of
                 Inl e \<Rightarrow> Inl e
               | Inr compfunc \<Rightarrow>
                   Inr (st\<lparr>completion_matches :=
                          Some (case compfunc of
                                  Completedefault \<Rightarrow> completedefault st
                                | Completenames \<Rightarrow> completenames st text
                                | Completer f \<Rightarrow> run f text line begidx endidx)\<rparr>))
         else Inr st) of
        Inl e \<Rightarrow> Inl e
      | Inr st \<Rightarrow>
          (case completion_matches st of
             None \<Rightarrow> Inl AttributeError
           | Some ms \<Rightarrow> Inr (list_get ms state, st)))"

subsection \<open>Help\<close>

text \<open>The class attributes \<open>nohelp\<close> and \<open>doc_leader\<close> of cmd.Cmd.\<close>

definition nohelp :: "string \<Rightarrow> string" where
  "nohelp arg = ''*** No help on '' @ arg"

definition doc_leader :: string where
  "doc_leader = []"

text \<open>\<open>if doc:\<close> holds for a doc string that is neither \<open>None\<close> nor empty.\<close>

definition doc_truthy :: "string option \<Rightarrow> bool" where
  "doc_truthy doc = (case doc of None \<Rightarrow> False | Some d \<Rightarrow> d \<noteq> [])"

text \<open>
  The second loop of the listing branch of \<open>do_help\<close>, over the sorted names: \<open>prevname\<close>
  skips repeated names, \<open>help\<close> holds the topics that have a help provider and loses those
  that are commands, and the commands go to \<open>cmds_doc\<close> or \<open>cmds_undoc\<close>.
\<close>

fun help_loop ::
  "interp \<Rightarrow> string list \<Rightarrow> string \<Rightarrow> string list \<Rightarrow> string list \<Rightarrow> string list \<Rightarrow>
     string list \<times> string list \<times> string list" where
  "help_loop st [] prevname help cmds_doc cmds_undoc = (cmds_doc, help, cmds_undoc)"
| "help_loop st (name # names) prevname help cmds_doc cmds_undoc =
     (if take 3 name = ''do_'' then
        (if name = prevname then help_loop st names prevname help cmds_doc cmds_undoc
         else
           (let cmd = drop 3 name in
            if cmd \<in> set help then
              help_loop st names name (removeAll cmd help) (cmds_doc @ [cmd]) cmds_undoc
            else if doc_truthy (case getattr st name of Some m \<Rightarrow> m_doc m | None \<Rightarrow> None) then
              help_loop st names name help (cmds_doc @ [cmd]) cmds_undoc
            else help_loop st names name help cmds_doc (cmds_undoc @ [cmd])))
      else help_loop st names prevname help cmds_doc cmds_undoc)"

text \<open>
  \<open>do_help(arg)\<close>. With an argument: the help provider \<open>help_<arg>\<close> is called when there
  is one; else, when there is a command \<open>do_<arg>\<close>, its doc string is written if it is
  truthy; the alias \<open>alias_<arg>\<close> is looked up only in the \<open>except AttributeError\<close> of the
  command lookup, that is, when there is no such command; in every remaining case the
  \<open>nohelp\<close> message is written.
\<close>

definition do_help :: "interp \<Rightarrow> string \<Rightarrow> effect \<times> interp" where
  "do_help st arg =
     (if arg \<noteq> [] then
        (case getattr st (''help_'' @ arg) of
           Some func \<Rightarrow> (Call func [], st)
         | None \<Rightarrow>
             (case getattr st (''do_'' @ arg) of
                Some m \<Rightarrow>
                  (if doc_truthy (m_doc m) then
                     (Returned None,
                      stdout_write st (trim_docstring (case m_doc m of Some d \<Rightarrow> d | None \<Rightarrow> []) @ [newline]))
                   else (Returned None, stdout_write st (nohelp arg @ [newline])))
              | None \<Rightarrow>
                  (case getattr st (wrap_alias arg) of
                     Some m \<Rightarrow>
                       (if doc_truthy (m_doc m) then
                          (Returned None,
                           stdout_write st (trim_docstring (case m_doc m of Some d \<Rightarrow> d | None \<Rightarrow> []) @ [newline]))
                        else (Returned None, stdout_write st (nohelp arg @ [newline])))
                   | None \<Rightarrow> (Returned None, stdout_write st (nohelp arg @ [newline])))))
      else
        (let names = get_names st;
             help = py_set (map (drop 5) (filter (\<lambda>name. take 5 name = ''help_'') names));
             names = sort names
         in case help_loop st names [] help [] [] of
              (cmds_doc, help, cmds_undoc) \<Rightarrow>
                (Topics cmds_doc help cmds_undoc, stdout_write st (doc_leader @ [newline]))))"

text \<open>
  The help chain in the words of the specification, to compare \<open>do_help\<close> with: the help
  provider if there is one; else the doc string of the command if it yields one; else the
  doc string of the alias target if it yields one; else no help. A doc string yields help
  when it is neither \<open>None\<close> nor empty.
\<close>

datatype help_answer = Provider pymethod | Doc_string string | No_help

definition doc_of :: "pymethod option \<Rightarrow> string option" where
  "doc_of found =
     (case found of
        Some m \<Rightarrow> (if doc_truthy (m_doc m) then m_doc m else None)
      | None \<Rightarrow> None)"

definition help_chain :: "interp \<Rightarrow> string \<Rightarrow> help_answer" where
  "help_chain st arg =
     (case getattr st (''help_'' @ arg) of
        Some func \<Rightarrow> Provider func
      | None \<Rightarrow>
          (case doc_of (getattr st (''do_'' @ arg)) of
             Some d \<Rightarrow> Doc_string d
           | None \<Rightarrow>
               (case doc_of (getattr st (wrap_alias arg)) of
                  Some d \<Rightarrow> Doc_string d
                | None \<Rightarrow> No_help)))"

text \<open>What an answer of the chain comes to: the provider is called without argument, a doc
  string is written trimmed, and no help is the \<open>nohelp\<close> message for the topic.\<close>

definition answer_effect :: "interp \<Rightarrow> string \<Rightarrow> help_answer \<Rightarrow> effect \<times> interp" where
  "answer_effect st arg answer =
     (case answer of
        Provider func \<Rightarrow> (Call func [], st)
      | Doc_string d \<Rightarrow> (Returned None, stdout_write st (trim_docstring d @ [newline]))
      | No_help \<Rightarrow> (Returned None, stdout_write st (nohelp arg @ [newline])))"

text \<open>
  The topics for which the command stands in the way of the alias: no help provider, a
  command without doc string, and an alias of the same name whose target has one.
\<close>

definition undocumented_command_shadows :: "interp \<Rightarrow> string \<Rightarrow> bool" where
  "undocumented_command_shadows st arg =
     (getattr st (''help_'' @ arg) = None \<and> getattr st (''do_'' @ arg) \<noteq> None \<and>
      doc_of (getattr st (''do_'' @ arg)) = None \<and> doc_of (getattr st (wrap_alias arg)) \<noteq> None)"

section \<open>AliasCmdInterpreter\<close>

text \<open>
  The generator expression of the listing branch of \<open>do_alias\<close>, joined with the empty
  string: one line \<open>alias: target\<close> per member of \<open>self.aliases\<close>, the target being the
  \<open>__name__\<close> of the bound method without its first three characters. A member without
  attribute raises \<open>AttributeError\<close>.
\<close>

fun alias_str :: "interp \<Rightarrow> string list \<Rightarrow> error + string" where
  "alias_str st [] = Inr []"
| "alias_str st (alias # rest) =
     (case getattr st (wrap_alias alias) of
        None \<Rightarrow> Inl AttributeError
      | Some m \<Rightarrow>
          (case alias_str st rest of
             Inl e \<Rightarrow> Inl e
           | Inr s \<Rightarrow> Inr (alias @ '': '' @ drop 3 (m_name m) @ [newline] @ s)))"

text \<open>
  \<open>do_alias(arg, suppress)\<close>. With an argument, it is split at single spaces; the target
  \<open>args[1]\<close> is looked up as a command and then as an alias, an \<open>IndexError\<close> or
  \<open>AttributeError\<close> leaving \<open>cmd\<close> at \<open>None\<close>. A found target is bound under
  \<open>alias_<args[0]>\<close> and \<open>self.aliases\<close> is recomputed (\<open>setattr\<close> on the instance does not
  fail, so the \<open>except Exception\<close> clause is never entered). Without target the instance
  attribute is deleted and \<open>self.aliases\<close> recomputed, or nothing is done when \<open>delattr\<close>
  raises \<open>AttributeError\<close>. Without argument the listing is written, or returned when
  \<open>suppress\<close> is set.
\<close>

definition do_alias :: "interp \<Rightarrow> string \<Rightarrow> bool \<Rightarrow> error + effect \<times> interp" where
  "do_alias st arg suppress =
     (if arg \<noteq> [] then
        (case split_on (CHR '' '') arg of
           [] \<Rightarrow> Inl IndexError
         | a0 # others \<Rightarrow>
             (let cmd = (case others of
                           [] \<Rightarrow> None
                         | a1 # _ \<Rightarrow>
                             (case getattr st (''do_'' @ a1) of
                                Some c \<Rightarrow> Some c
                              | None \<Rightarrow> getattr st (wrap_alias a1)));
                  new_alias = wrap_alias a0
              in case cmd of
                   Some c \<Rightarrow>
                     (let st = setattr st new_alias c
                      in Inr (Returned None, st\<lparr>aliases := get_aliases st\<rparr>))
                 | None \<Rightarrow>
                     (case delattr st new_alias of
                        Inr st \<Rightarrow> Inr (Returned None, st\<lparr>aliases := get_aliases st\<rparr>)
                      | Inl e \<Rightarrow> Inr (Returned None, st))))
      else
        (case alias_str st (aliases st) of
           Inl e \<Rightarrow> Inl e
         | Inr listing \<Rightarrow>
             (if \<not> suppress then Inr (Returned None, stdout_write st listing)
              else Inr (Returned (Some listing), st))))"

text \<open>
  \<open>__default_alias(force)\<close> binds \<open>alias_a\<close> to \<open>self.do_alias\<close> unless the attribute is
  there already and \<open>force\<close> is off.
\<close>

definition default_alias :: "interp \<Rightarrow> bool \<Rightarrow> error + interp" where
  "default_alias st force =
     (if \<not> hasattr st (wrap_alias ''a'') \<or> force then
        (case getattr st ''do_alias'' of
           None \<Rightarrow> Inl AttributeError
         | Some m \<Rightarrow> Inr (setattr st (wrap_alias ''a'') m))
      else Inr st)"

text \<open>
  Construction. \<open>AliasMix.__init__\<close> takes the alias set from the attributes the object has
  at that moment, which are its class's. \<open>AliasCmdInterpreter.__init__\<close> runs it and then,
  when \<open>enable_alias\<close> is set, \<open>__default_alias(force_alias)\<close>. The class (its methods and
  its \<open>SHOW_ALIAS\<close>) is a parameter: a shell is a subclass with commands of its own.
\<close>

definition AliasMix_init :: "(string \<times> pymethod) list \<Rightarrow> bool \<Rightarrow> interp" where
  "AliasMix_init class_methods show_alias =
     (let st = \<lparr>cls = class_methods, inst = [], SHOW_ALIAS = show_alias, aliases = [],
                completion_matches = None, lastcmd = [], stdout = []\<rparr>
      in st\<lparr>aliases := get_aliases st\<rparr>)"

definition AliasCmdInterpreter_init ::
  "bool \<Rightarrow> bool \<Rightarrow> (string \<times> pymethod) list \<Rightarrow> bool \<Rightarrow> error + interp" where
  "AliasCmdInterpreter_init enable_alias force_alias class_methods show_alias =
     (let st = AliasMix_init class_methods show_alias
      in if enable_alias then default_alias st force_alias else Inr st)"

text \<open>
  The methods of \<open>AliasCmdInterpreter\<close> itself that the code can find by name: \<open>do_help\<close>
  (of \<open>AliasMix\<close>), \<open>do_EOF\<close>, \<open>do_alias\<close>, and \<open>complete_help\<close> of cmd.Cmd.
\<close>

definition do_alias_doc :: string where
  "do_alias_doc = str_join [newline]
     [[],
      ''        Set/clear aliases.'',
      ''        If no options are provided, print aliases and their corresponding commands.'',
      [],
      ''        Usage:'',
      ''          alias [alias] [command]'',
      [],
      ''        Options:'',
      ''          [alias]: alias to create'',
      ''          [command]: command to map [alias] to.'',
      ''                     If blank it will clear the alias for [alias]'',
      ''        '']"

definition do_help_doc :: string where
  "do_help_doc = ''List available commands with '' @ [CHR 0x22] @ ''help'' @ [CHR 0x22] @
     '' or detailed help with '' @ [CHR 0x22] @ ''help cmd'' @ [CHR 0x22] @ ''.''"

definition AliasCmdInterpreter_methods :: "(string \<times> pymethod) list" where
  "AliasCmdInterpreter_methods =
     [(''do_help'', \<lparr>m_name = ''do_help'', m_doc = Some do_help_doc, m_func = 0\<rparr>),
      (''do_EOF'', \<lparr>m_name = ''do_EOF'', m_doc = None, m_func = 1\<rparr>),
      (''do_alias'', \<lparr>m_name = ''do_alias'', m_doc = Some do_alias_doc, m_func = 2\<rparr>),
      (''complete_help'', \<lparr>m_name = ''complete_help'', m_doc = None, m_func = 3\<rparr>)]"

text \<open>Every member of the alias set is the name of a bound alias.\<close>

definition aliases_bound :: "interp \<Rightarrow> bool" where
  "aliases_bound st = list_all (\<lambda>a. hasattr st (wrap_alias a)) (aliases st)"

section \<open>Reading the alias listing back\<close>







section \<open>Sequences of calls and example objects\<close>

text \<open>
  A sequence of \<open>_cache_completion\<close> calls on one object, each given by its arguments
  \<open>(key, text, line, begidx, endidx)\<close>; the results are dropped, the state is threaded.
\<close>

fun cache_completions ::
  "'k cache_mix \<Rightarrow> ('k \<times> string \<times> string \<times> int \<times> int) list \<Rightarrow> 'k cache_mix" where
  "cache_completions s [] = s"
| "cache_completions s ((key, text, line, begidx, endidx) # calls) =
     cache_completions (snd (cache_completion s key text line begidx endidx)) calls"

text \<open>A cache mix-in whose source offers the same four candidates for every key.\<close>

definition ex_cache :: "string cache_mix" where
  "ex_cache = \<lparr>cache = Map.empty,
               completion_source = (\<lambda>_. [''list'', ''load'', ''quit'', ''list''])\<rparr>"

text \<open>
  A shell with the two commands of the specification's scenario besides the built-in
  ones: \<open>quit\<close>, documented, and \<open>list\<close>, without doc string. \<open>ex_shell\<close> is the object as
  \<open>AliasMix.__init__\<close> leaves it.
\<close>

definition ex_quit :: pymethod where
  "ex_quit = \<lparr>m_name = ''do_quit'', m_doc = Some ''exit'', m_func = 10\<rparr>"

definition ex_list :: pymethod where
  "ex_list = \<lparr>m_name = ''do_list'', m_doc = None, m_func = 11\<rparr>"

definition ex_methods :: "(string \<times> pymethod) list" where
  "ex_methods = AliasCmdInterpreter_methods @ [(''do_quit'', ex_quit), (''do_list'', ex_list)]"

definition ex_shell :: interp where
  "ex_shell = \<lparr>cls = ex_methods, inst = [], SHOW_ALIAS = False, aliases = [],
               completion_matches = None, lastcmd = [], stdout = []\<rparr>"

text \<open>
  The same shell when its class also defines the alias \<open>q\<close> in the class body
  (\<open>alias_q = do_quit\<close>), which is how a shell built on \<open>AliasMix\<close> alone declares aliases.
\<close>

definition ex_class_alias :: interp where
  "ex_class_alias = \<lparr>cls = ex_methods @ [(''alias_q'', ex_quit)], inst = [], SHOW_ALIAS = False,
                     aliases = [''q''], completion_matches = None, lastcmd = [], stdout = []\<rparr>"

text \<open>
  The example shell after \<open>alias q quit\<close>: the alias \<open>q\<close> is bound on the instance.
\<close>

definition ex_alias_q :: interp where
  "ex_alias_q = ex_shell\<lparr>inst := [(''alias_q'', ex_quit)], aliases := [''q'']\<rparr>"

text \<open>
  The example shell of a class that sets \<open>SHOW_ALIAS\<close>, after \<open>alias quit quit\<close>: the alias
  \<open>quit\<close> has the name of a command.
\<close>

definition ex_show :: interp where
  "ex_show = ex_shell\<lparr>inst := [(''alias_quit'', ex_quit)], SHOW_ALIAS := True,
                        aliases := [''quit'']\<rparr>"

text \<open>
  The example shell after \<open>alias list quit\<close>: the alias \<open>list\<close> of the documented command
  \<open>quit\<close> has the name of the undocumented command \<open>list\<close>.
\<close>

definition ex_shadow :: interp where
  "ex_shadow = ex_shell\<lparr>inst := [(''alias_list'', ex_quit)], aliases := [''list'']\<rparr>"




section \<open>Properties of the completion cache\<close>

lemma set_cache_filter:
  "set (cache_filter opts text line) = {i \<in> set opts. prefix text i \<and> \<not> sublist i line}"
  by (auto simp: cache_filter_def py_set_def startswith_def str_in_def)

lemma cache_completion_hit:
  "cache s key = Some opts \<Longrightarrow>
     cache_completion s key text line b e = (cache_filter opts text line, s)"
  by (simp add: cache_completion_def)

lemma cache_completion_miss:
  "cache s key = None \<Longrightarrow>
     cache_completion s key text line b e =
       (cache_filter (completion_source s key) text line,
        s\<lparr>cache := (cache s)(key \<mapsto> completion_source s key)\<rparr>)"
  by (simp add: cache_completion_def)

lemma cache_completion_entry:
  "cache (snd (cache_completion s key text line b e)) key =
     Some (case cache s key of Some opts \<Rightarrow> opts | None \<Rightarrow> completion_source s key)"
  by (simp add: cache_completion_def split: option.splits)

lemma cache_completion_result:
  "fst (cache_completion s key text line b e) =
     cache_filter (case cache s key of Some opts \<Rightarrow> opts | None \<Rightarrow> completion_source s key)
       text line"
  by (simp add: cache_completion_def split: option.splits)

text \<open>
  Claim C1. \<open>_cache_completion(k, t, l, begidx, endidx)\<close> answers from the candidate set
  cached for \<open>k\<close>. When \<open>k\<close> has an entry, that entry is the set, whatever the source would
  give now, and the state is unchanged; when \<open>k\<close> has none, the set is what
  \<open>completion_source\<close> gives for \<open>k\<close>, stored under \<open>k\<close> before filtering, and nothing else
  changes. The result is the filter of that set: every candidate returned is a member of
  it, starts with \<open>t\<close> and is not a substring of \<open>l\<close>, and every such member is returned. Any
  further query with the same key, whatever its text and line, leaves the state as it is
  and returns members of that same cached set only.
\<close>

theorem cache_completion_sound:
  assumes "cache_completion s k t l b e = (res, s')"
  shows "\<exists>cands. cache s' k = Some cands
           \<and> (cache s k = None \<longrightarrow>
                cands = completion_source s k
                \<and> s' = s\<lparr>cache := (cache s)(k \<mapsto> completion_source s k)\<rparr>)
           \<and> (\<forall>opts. cache s k = Some opts \<longrightarrow> cands = opts \<and> s' = s)
           \<and> res = cache_filter cands t l
           \<and> (\<forall>c \<in> set res. c \<in> set cands \<and> prefix t c \<and> \<not> sublist c l)
           \<and> set res = {c \<in> set cands. prefix t c \<and> \<not> sublist c l}
           \<and> (\<forall>t2 l2 b2 e2.
                  snd (cache_completion s' k t2 l2 b2 e2) = s'
                  \<and> set (fst (cache_completion s' k t2 l2 b2 e2)) \<subseteq> set cands)"
proof -
  define cands where "cands = (case cache s k of Some opts \<Rightarrow> opts | None \<Rightarrow> completion_source s k)"
  have res: "res = cache_filter cands t l"
    using assms cache_completion_result [of s k t l b e] by (simp add: cands_def)
  have entry: "cache s' k = Some cands"
    using assms cache_completion_entry [of s k t l b e] by (simp add: cands_def)
  have fresh: "cache s k = None \<longrightarrow>
      cands = completion_source s k \<and> s' = s\<lparr>cache := (cache s)(k \<mapsto> completion_source s k)\<rparr>"
    using assms by (auto simp: cands_def cache_completion_miss)
  have hit: "cache s k = Some opts \<longrightarrow> cands = opts \<and> s' = s" for opts
    using assms by (auto simp: cands_def cache_completion_hit)
  have members: "set res = {c \<in> set cands. prefix t c \<and> \<not> sublist c l}"
    by (simp add: res set_cache_filter)
  have later: "snd (cache_completion s' k t2 l2 b2 e2) = s'
      \<and> set (fst (cache_completion s' k t2 l2 b2 e2)) \<subseteq> set cands" for t2 l2 b2 e2
  proof -
    have "cache_completion s' k t2 l2 b2 e2 = (cache_filter cands t2 l2, s')"
      using entry by (rule cache_completion_hit)
    then show ?thesis by (simp add: set_cache_filter)
  qed
  have each: "\<forall>c \<in> set res. c \<in> set cands \<and> prefix t c \<and> \<not> sublist c l"
    unfolding members by simp
  show ?thesis
  proof (intro exI conjI allI)
    show "cache s' k = Some cands" by (rule entry)
    show "cache s k = None \<longrightarrow>
      cands = completion_source s k \<and> s' = s\<lparr>cache := (cache s)(k \<mapsto> completion_source s k)\<rparr>"
      by (rule fresh)
    show "cache s k = Some opts \<longrightarrow> cands = opts \<and> s' = s" for opts by (rule hit)
    show "res = cache_filter cands t l" by (rule res)
    show "\<forall>c \<in> set res. c \<in> set cands \<and> prefix t c \<and> \<not> sublist c l" by (rule each)
    show "set res = {c \<in> set cands. prefix t c \<and> \<not> sublist c l}" by (rule members)
    show "snd (cache_completion s' k t2 l2 b2 e2) = s'" for t2 l2 b2 e2
      using later [of t2 l2 b2 e2] by (rule conjunct1)
    show "set (fst (cache_completion s' k t2 l2 b2 e2)) \<subseteq> set cands" for t2 l2 b2 e2
      using later [of t2 l2 b2 e2] by (rule conjunct2)
  qed
qed

lemma ex_cache_first_query:
  "cache_completion ex_cache ''open'' ''l'' ''open load'' 5 6 =
     ([''list''],
      ex_cache\<lparr>cache := [''open'' \<mapsto> [''list'', ''load'', ''quit'', ''list'']]\<rparr>)"
  by (simp add: cache_completion_def cache_filter_def py_set_def startswith_def str_in_def
      ex_cache_def sublist_Cons_right)

theorem cache_completion_sound_witness:
  "cache_completion ex_cache ''open'' ''l'' ''open load'' 5 6 =
     ([''list''],
      ex_cache\<lparr>cache := [''open'' \<mapsto> [''list'', ''load'', ''quit'', ''list'']]\<rparr>)
   \<and> cache ex_cache ''open'' = None
   \<and> set (fst (cache_completion
                 (ex_cache\<lparr>cache := [''open'' \<mapsto> [''list'', ''load'', ''quit'', ''list'']]\<rparr>)
                 ''open'' ''lo'' ''open'' 5 7))
       \<subseteq> set [''list'', ''load'', ''quit'', ''list'']
   \<and> cache (ex_cache\<lparr>cache := [''open'' \<mapsto> [''old'', ''lost'']]\<rparr>) ''open'' = Some [''old'', ''lost'']
   \<and> cache_completion (ex_cache\<lparr>cache := [''open'' \<mapsto> [''old'', ''lost'']]\<rparr>) ''open'' ''l''
         ''open load'' 5 6 =
       ([''lost''], ex_cache\<lparr>cache := [''open'' \<mapsto> [''old'', ''lost'']]\<rparr>)"
proof -
  let ?s' = "ex_cache\<lparr>cache := [''open'' \<mapsto> [''list'', ''load'', ''quit'', ''list'']]\<rparr>"
  let ?stale = "ex_cache\<lparr>cache := [''open'' \<mapsto> [''old'', ''lost'']]\<rparr>"
  from cache_completion_sound [OF ex_cache_first_query] obtain cands where
    entry: "cache ?s' ''open'' = Some cands" and
    later: "\<forall>t2 l2 b2 e2. snd (cache_completion ?s' ''open'' t2 l2 b2 e2) = ?s'
        \<and> set (fst (cache_completion ?s' ''open'' t2 l2 b2 e2)) \<subseteq> set cands"
    by (elim exE conjE)
  from entry have cands: "cands = [''list'', ''load'', ''quit'', ''list'']" by simp
  from later have sub: "set (fst (cache_completion ?s' ''open'' ''lo'' ''open'' 5 7)) \<subseteq> set cands"
    by (elim allE conjE)
  have none: "cache ex_cache ''open'' = None" by (simp add: ex_cache_def)
  have stored: "cache ?stale ''open'' = Some [''old'', ''lost'']" by simp
  obtain res s1 where call: "cache_completion ?stale ''open'' ''l'' ''open load'' 5 6 = (res, s1)"
    by (cases "cache_completion ?stale ''open'' ''l'' ''open load'' 5 6")
  from cache_completion_sound [OF call] obtain cands' where
    hit: "\<forall>opts. cache ?stale ''open'' = Some opts \<longrightarrow> cands' = opts \<and> s1 = ?stale" and
    res: "res = cache_filter cands' ''l'' ''open load''"
    by (elim exE conjE)
  from hit stored have "cands' = [''old'', ''lost''] \<and> s1 = ?stale"
    by (elim allE) (rule mp)
  moreover have "cache_filter [''old'', ''lost''] ''l'' ''open load'' = [''lost'']"
    by (simp add: cache_filter_def py_set_def startswith_def str_in_def sublist_Cons_right)
  ultimately have stale: "cache_completion ?stale ''open'' ''l'' ''open load'' 5 6 =
       ([''lost''], ?stale)"
    using call res by simp
  from ex_cache_first_query none sub [unfolded cands] stored stale show ?thesis
    by (intro conjI)
qed

text \<open>
  Claim C8. A call of \<open>_cache_completion\<close>, for the same or for another key, leaves the entry
  of every key that has one as it is; a call with an uncached key adds the entry of that
  key and changes nothing else; the source is never replaced; and so an entry, once
  there, is still there after any sequence of calls.
\<close>

theorem cache_completion_frame:
  "(cache s k = Some v \<longrightarrow> cache (snd (cache_completion s k' t l b e)) k = Some v)
   \<and> (cache s k' = None \<longrightarrow>
        cache (snd (cache_completion s k' t l b e)) = (cache s)(k' \<mapsto> completion_source s k'))
   \<and> (cache s k' \<noteq> None \<longrightarrow> snd (cache_completion s k' t l b e) = s)
   \<and> completion_source (snd (cache_completion s k' t l b e)) = completion_source s
   \<and> (cache s k = Some v \<longrightarrow> cache (cache_completions s calls) k = Some v)"
proof -
  have one: "cache (snd (cache_completion s0 k0 t0 l0 b0 e0)) k = Some v"
    if "cache s0 k = Some v" for s0 :: "'a cache_mix" and k0 t0 l0 b0 e0
    using that by (cases "cache s0 k0") (auto simp: cache_completion_def)
  have many: "cache s0 k = Some v \<Longrightarrow> cache (cache_completions s0 calls) k = Some v"
    for s0 :: "'a cache_mix"
  proof (induction calls arbitrary: s0)
    case Nil
    then show ?case by simp
  next
    case (Cons call calls)
    obtain k0 t0 l0 b0 e0 where call: "call = (k0, t0, l0, b0, e0)"
      by (cases call) auto
    from Cons.prems have "cache (snd (cache_completion s0 k0 t0 l0 b0 e0)) k = Some v"
      by (rule one)
    then have "cache (cache_completions (snd (cache_completion s0 k0 t0 l0 b0 e0)) calls) k = Some v"
      by (rule Cons.IH)
    then show ?case
      by (simp add: call)
  qed
  have miss: "cache s k' = None \<longrightarrow>
      cache (snd (cache_completion s k' t l b e)) = (cache s)(k' \<mapsto> completion_source s k')"
    by (simp add: cache_completion_miss)
  have hit: "cache s k' \<noteq> None \<longrightarrow> snd (cache_completion s k' t l b e) = s"
    by (cases "cache s k'") (simp_all add: cache_completion_hit)
  have src: "completion_source (snd (cache_completion s k' t l b e)) = completion_source s"
    by (cases "cache s k'") (simp_all add: cache_completion_def)
  show ?thesis
    using one [of s k' t l b e] many [of s] miss hit src by (intro conjI impI) simp_all
qed

theorem cache_completion_frame_witness:
  "cache (ex_cache\<lparr>cache := [''open'' \<mapsto> [''old'']]\<rparr>) ''open'' = Some [''old'']
   \<and> cache (ex_cache\<lparr>cache := [''open'' \<mapsto> [''old'']]\<rparr>) ''save'' = None
   \<and> cache (snd (cache_completion (ex_cache\<lparr>cache := [''open'' \<mapsto> [''old'']]\<rparr>)
                    ''save'' ''l'' ''save '' 5 6)) ''open'' = Some [''old'']
   \<and> cache (snd (cache_completion (ex_cache\<lparr>cache := [''open'' \<mapsto> [''old'']]\<rparr>)
                    ''save'' ''l'' ''save '' 5 6))
       = [''open'' \<mapsto> [''old''], ''save'' \<mapsto> [''list'', ''load'', ''quit'', ''list'']]
   \<and> cache (cache_completions (ex_cache\<lparr>cache := [''open'' \<mapsto> [''old'']]\<rparr>)
               [(''save'', ''l'', ''save '', 5, 6), (''open'', ''o'', ''open '', 5, 6)]) ''open''
       = Some [''old'']"
proof -
  let ?s = "ex_cache\<lparr>cache := [''open'' \<mapsto> [''old'']]\<rparr>"
  have a: "cache ?s ''open'' = Some [''old'']" by simp
  have b: "cache ?s ''save'' = None" by simp
  note f = cache_completion_frame [of ?s "''open''" "[''old'']" "''save''" "''l''" "''save ''" 5 6
      "[(''save'', ''l'', ''save '', 5, 6), (''open'', ''o'', ''open '', 5, 6)]"]
  from f a have c: "cache (snd (cache_completion ?s ''save'' ''l'' ''save '' 5 6)) ''open'' = Some [''old'']"
    by (elim conjE) (rule mp)
  from f b have "cache (snd (cache_completion ?s ''save'' ''l'' ''save '' 5 6))
      = (cache ?s)(''save'' \<mapsto> completion_source ?s ''save'')"
    by (elim conjE) (rule mp)
  then have d: "cache (snd (cache_completion ?s ''save'' ''l'' ''save '' 5 6))
       = [''open'' \<mapsto> [''old''], ''save'' \<mapsto> [''list'', ''load'', ''quit'', ''list'']]"
    by (simp add: ex_cache_def)
  from f a have e: "cache (cache_completions ?s
               [(''save'', ''l'', ''save '', 5, 6), (''open'', ''o'', ''open '', 5, 6)]) ''open''
       = Some [''old'']"
    by (elim conjE) (rule mp)
  from a b c d e show ?thesis by (intro conjI)
qed

section \<open>Attribute access\<close>

lemma getattr_setattr:
  "getattr (setattr st n m) n' = (if n' = n then Some m else getattr st n')"
  by (simp add: getattr_def setattr_def update_conv' split: option.splits)

lemma getattr_delattr:
  "delattr st n = Inr st' \<Longrightarrow>
     getattr st' n' = (if n' = n then map_of (cls st) n else getattr st n')"
  by (auto simp: getattr_def delattr_def delete_conv' split: if_splits option.splits)

lemma getattr_aliases_update [simp]: "getattr (st\<lparr>aliases := a\<rparr>) n = getattr st n"
  by (simp add: getattr_def split: option.splits)

lemma get_names_aliases_update [simp]: "get_names (st\<lparr>aliases := a\<rparr>) = get_names st"
  by (simp add: get_names_def)

lemma get_aliases_aliases_update [simp]: "get_aliases (st\<lparr>aliases := a\<rparr>) = get_aliases st"
  by (simp add: get_aliases_def)

lemma set_get_names: "set (get_names st) = fst ` set (inst st) \<union> fst ` set (cls st)"
  by (simp add: get_names_def)

lemma distinct_get_names: "distinct (get_names st)"
  by (simp add: get_names_def)

lemma sorted_get_names: "sorted (get_names st)"
  by (simp add: get_names_def)

lemma in_get_names_iff: "n \<in> set (get_names st) \<longleftrightarrow> getattr st n \<noteq> None"
proof -
  have "getattr st n = None \<longleftrightarrow> map_of (inst st) n = None \<and> map_of (cls st) n = None"
    by (simp add: getattr_def split: option.splits)
  then show ?thesis
    by (simp add: set_get_names map_of_eq_None_iff)
qed

section \<open>Completion requests\<close>

lemma complete_first_stores:
  assumes "complete run st rl typed 0 = Inr (r, st')"
  shows "\<exists>ms. completion_matches st' = Some ms \<and> r = list_get ms 0
           \<and> st' = st\<lparr>completion_matches := Some ms\<rparr>"
  using assms
  by (auto simp: complete_def Let_def split: sum.splits option.splits if_splits)

lemma complete_without_list:
  assumes "completion_matches st = None" and "s \<noteq> 0"
  shows "complete run st rl typed s = Inl AttributeError"
  using assms by (simp add: complete_def)

text \<open>
  Claim C2. With a state index \<open>s > 0\<close> and the candidate list \<open>ms\<close> that a call with state
  0 has stored, \<open>complete(text, s)\<close> computes nothing anew: the object is unchanged, the
  result is the element of \<open>ms\<close> at index \<open>s\<close>, and it is \<open>None\<close>, not an exception, when \<open>s\<close>
  is out of range.
\<close>

theorem complete_replays:
  assumes "completion_matches st = Some ms" and "0 < s"
  shows "complete run st rl typed s =
           Inr (if nat s < length ms then Some (ms ! nat s) else None, st)"
proof -
  from \<open>0 < s\<close> have "s < int (length ms) \<longleftrightarrow> nat s < length ms"
    by linarith
  with assms show ?thesis
    by (simp add: complete_def list_get_def)
qed

theorem complete_replays_witness:
  "complete (\<lambda>f t l b e. []) (ex_shell\<lparr>completion_matches := Some [''alias'', ''help'', ''quit'']\<rparr>)
      \<lparr>line_buffer = [], rl_begidx = 0, rl_endidx = 0\<rparr> [] 2 =
     Inr (Some ''quit'', ex_shell\<lparr>completion_matches := Some [''alias'', ''help'', ''quit'']\<rparr>)
   \<and> complete (\<lambda>f t l b e. []) (ex_shell\<lparr>completion_matches := Some [''alias'', ''help'', ''quit'']\<rparr>)
      \<lparr>line_buffer = [], rl_begidx = 0, rl_endidx = 0\<rparr> [] 3 =
     Inr (None, ex_shell\<lparr>completion_matches := Some [''alias'', ''help'', ''quit'']\<rparr>)"
proof -
  let ?st = "ex_shell\<lparr>completion_matches := Some [''alias'', ''help'', ''quit'']\<rparr>"
  let ?rl = "\<lparr>line_buffer = [], rl_begidx = 0, rl_endidx = 0\<rparr>"
  let ?run = "\<lambda>(f::pymethod) (t::string) (l::string) (b::int) (e::int). [] :: string list"
  have m: "completion_matches ?st = Some [''alias'', ''help'', ''quit'']" by simp
  have "complete ?run ?st ?rl [] 2 = Inr (Some ''quit'', ?st)"
    using complete_replays [OF m, where s = 2 and run = ?run and rl = ?rl and typed = "[]"] by simp
  moreover have "complete ?run ?st ?rl [] 3 = Inr (None, ?st)"
    using complete_replays [OF m, where s = 3 and run = ?run and rl = ?rl and typed = "[]"] by simp
  ultimately show ?thesis by (rule conjI)
qed

section \<open>Construction and the alias set\<close>

lemma ex_shell_init: "AliasMix_init ex_methods False = ex_shell"
  by (simp add: AliasMix_init_def ex_shell_def get_aliases_def get_names_def ex_methods_def
      AliasCmdInterpreter_methods_def py_set_def startswith_def ALIAS_PREFIX_def)

lemma ex_shell_seeded:
  "AliasCmdInterpreter_init True False ex_methods False =
     Inr (ex_shell\<lparr>inst := [(''alias_a'',
            \<lparr>m_name = ''do_alias'', m_doc = Some do_alias_doc, m_func = 2\<rparr>)]\<rparr>)"
proof -
  have "AliasCmdInterpreter_init True False ex_methods False = default_alias ex_shell False"
    by (simp add: AliasCmdInterpreter_init_def ex_shell_init)
  also have "\<dots> = Inr (ex_shell\<lparr>inst := [(''alias_a'',
            \<lparr>m_name = ''do_alias'', m_doc = Some do_alias_doc, m_func = 2\<rparr>)]\<rparr>)"
    by (simp add: default_alias_def hasattr_def getattr_def setattr_def wrap_alias_def
        ALIAS_PREFIX_def ex_shell_def ex_methods_def AliasCmdInterpreter_methods_def)
  finally show ?thesis .
qed

text \<open>
  Claim C5, at the input where the code departs from it. Constructing the example shell
  with the default arguments (\<open>enable_alias\<close> set, \<open>force_alias\<close> not) binds \<open>alias_a\<close>, so
  \<open>get_aliases()\<close> is \<open>{a}\<close>, while the attribute \<open>aliases\<close> is still the empty set taken
  before the seeding.
\<close>

theorem seeding_leaves_alias_set_stale:
  "map_sum id aliases (AliasCmdInterpreter_init True False ex_methods False) = Inr []
   \<and> map_sum id get_aliases (AliasCmdInterpreter_init True False ex_methods False) = Inr [''a'']"
  unfolding ex_shell_seeded
  by (simp add: ex_shell_def ex_methods_def
      AliasCmdInterpreter_methods_def get_aliases_def get_names_def py_set_def startswith_def
      ALIAS_PREFIX_def)

section \<open>The alias command\<close>

lemma split_on_not_Nil: "split_on sep s \<noteq> []"
  by (induction s) (auto split: list.splits)

lemma split_on_no_sep: "sep \<notin> set a \<Longrightarrow> split_on sep a = [a]"
  by (induction a) auto

lemma split_on_first: "sep \<notin> set a \<Longrightarrow> split_on sep (a @ sep # rest) = a # split_on sep rest"
  by (induction a) (auto split: list.splits)

lemma wrap_alias_neq_do: "wrap_alias a \<noteq> ''do_'' @ t"
  by (simp add: wrap_alias_def ALIAS_PREFIX_def)

lemma wrap_alias_inject [simp]: "wrap_alias a = wrap_alias b \<longleftrightarrow> a = b"
  by (simp add: wrap_alias_def)

text \<open>The two branches of \<open>do_alias\<close> with an argument.\<close>

lemma do_alias_delete:
  assumes "split_on (CHR '' '') arg = a0 # others" and "arg \<noteq> []"
    and "case others of [] \<Rightarrow> True
         | a1 # _ \<Rightarrow> getattr st (''do_'' @ a1) = None \<and> getattr st (wrap_alias a1) = None"
  shows "do_alias st arg suppress =
           (if wrap_alias a0 \<in> set (map fst (inst st)) then
              Inr (Returned None,
                   st\<lparr>inst := AList.delete (wrap_alias a0) (inst st),
                      aliases := get_aliases (st\<lparr>inst := AList.delete (wrap_alias a0) (inst st)\<rparr>)\<rparr>)
            else Inr (Returned None, st))"
  using assms by (auto simp: do_alias_def delattr_def Let_def split: list.splits)

lemma do_alias_create:
  assumes "split_on (CHR '' '') arg = a0 # a1 # others" and "arg \<noteq> []"
    and "(case getattr st (''do_'' @ a1) of Some c \<Rightarrow> Some c | None \<Rightarrow> getattr st (wrap_alias a1)) = Some c"
  shows "do_alias st arg suppress =
           Inr (Returned None,
                (setattr st (wrap_alias a0) c)\<lparr>aliases := get_aliases (setattr st (wrap_alias a0) c)\<rparr>)"
  using assms by (simp add: do_alias_def Let_def)


lemma getattr_delete_inst:
  "getattr (st\<lparr>inst := AList.delete n (inst st)\<rparr>) n' =
     (if n' = n then map_of (cls st) n else getattr st n')"
  by (simp add: getattr_def delete_conv' split: option.splits)

lemma getattr_not_in_inst:
  "n \<notin> set (map fst (inst st)) \<Longrightarrow> getattr st n = map_of (cls st) n"
proof -
  assume "n \<notin> set (map fst (inst st))"
  then have "map_of (inst st) n = None"
    by (simp add: map_of_eq_None_iff)
  then show ?thesis
    by (simp add: getattr_def)
qed

lemma getattr_None_not_in_inst:
  "getattr st n = None \<Longrightarrow> n \<notin> set (map fst (inst st))"
  by (auto simp: getattr_def map_of_eq_None_iff split: option.splits)

text \<open>
  Deletion by the alias command, for the bindings the instance holds. Let the command be
  invoked for a name \<open>A\<close> (not empty, without space) with no target, or with a target \<open>T\<close> that
  is neither a command nor an alias. It raises nothing and returns \<open>None\<close>. When the
  instance holds no binding \<open>alias_A\<close> the state is unchanged. When it does, the first call
  removes that binding and recomputes the alias set, and a second call changes nothing.
  After the call, \<open>alias_A\<close> is whatever the class defines under that name, and every other
  attribute is as before.
\<close>

theorem alias_deletion_idempotent:
  assumes A: "A \<noteq> []" "CHR '' '' \<notin> set A"
    and arg: "arg = A \<or>
              (arg = A @ '' '' @ T \<and> CHR '' '' \<notin> set T \<and>
               getattr st (''do_'' @ T) = None \<and> getattr st (wrap_alias T) = None)"
  shows "\<exists>st1. do_alias st arg suppress = Inr (Returned None, st1)
           \<and> do_alias st1 arg suppress = Inr (Returned None, st1)
           \<and> wrap_alias A \<notin> set (map fst (inst st1))
           \<and> (wrap_alias A \<notin> set (map fst (inst st)) \<longrightarrow> st1 = st)
           \<and> (wrap_alias A \<in> set (map fst (inst st)) \<longrightarrow>
                inst st1 = AList.delete (wrap_alias A) (inst st) \<and> aliases st1 = get_aliases st1)
           \<and> getattr st1 (wrap_alias A) = map_of (cls st) (wrap_alias A)
           \<and> (\<forall>n. n \<noteq> wrap_alias A \<longrightarrow> getattr st1 n = getattr st n)"
proof -
  let ?n = "wrap_alias A"
  let ?del = "st\<lparr>inst := AList.delete ?n (inst st)\<rparr>"
  define st1 where
    "st1 = (if ?n \<in> set (map fst (inst st)) then ?del\<lparr>aliases := get_aliases ?del\<rparr> else st)"
  define others where "others = (if arg = A then [] else [T])"
  have nonempty: "arg \<noteq> []"
    using A(1) arg by auto
  have split: "split_on (CHR '' '') arg = A # others"
  proof (cases "arg = A")
    case True
    then show ?thesis
      using A(2) by (simp add: others_def split_on_no_sep)
  next
    case False
    with arg have "arg = A @ CHR '' '' # T" and "CHR '' '' \<notin> set T"
      by auto
    then show ?thesis
      using A(2) False by (simp add: others_def split_on_first split_on_no_sep)
  qed
  have other: "getattr s (wrap_alias A) = map_of (cls st) (wrap_alias A)" and
    rest: "\<And>n. n \<noteq> ?n \<Longrightarrow> getattr st1 n = getattr st n" and
    gone: "?n \<notin> set (map fst (inst st1))" if "s = st1" for s
    using that
    using delete_notin_dom [of ?n "inst st"]
    by (auto simp: st1_def getattr_delete_inst getattr_not_in_inst)
  have unresolved: "case others of [] \<Rightarrow> True
         | a1 # _ \<Rightarrow> getattr s (''do_'' @ a1) = None \<and> getattr s (wrap_alias a1) = None"
    if "s = st \<or> s = st1" for s
  proof (cases "arg = A")
    case True
    then show ?thesis by (simp add: others_def)
  next
    case False
    with arg have T: "getattr st (''do_'' @ T) = None" "getattr st (wrap_alias T) = None"
      by auto
    have "T \<noteq> A" if "?n \<in> set (map fst (inst st))"
      using that T(2) getattr_None_not_in_inst by blast
    then have "getattr st1 (wrap_alias T) = None"
      using T(2) by (auto simp: st1_def getattr_delete_inst)
    moreover have "getattr st1 (''do_'' @ T) = None"
      using T(1) rest [OF refl, of "''do_'' @ T"] wrap_alias_neq_do [of A T] by auto
    ultimately show ?thesis
      using that T False by (auto simp: others_def)
  qed
  have first: "do_alias st arg suppress = Inr (Returned None, st1)"
    using do_alias_delete [OF split nonempty unresolved, of st suppress]
    by (simp add: st1_def)
  have second: "do_alias st1 arg suppress = Inr (Returned None, st1)"
    using do_alias_delete [OF split nonempty unresolved, of st1 suppress] gone [OF refl]
    by simp
  have absent: "?n \<notin> set (map fst (inst st)) \<longrightarrow> st1 = st"
    by (simp add: st1_def)
  have bound: "?n \<in> set (map fst (inst st)) \<longrightarrow>
      inst st1 = AList.delete ?n (inst st) \<and> aliases st1 = get_aliases st1"
    by (simp add: st1_def)
  show ?thesis
  proof (intro exI conjI allI impI)
    show "do_alias st arg suppress = Inr (Returned None, st1)" by (rule first)
    show "do_alias st1 arg suppress = Inr (Returned None, st1)" by (rule second)
    show "?n \<notin> set (map fst (inst st1))" by (rule gone [OF refl])
    show "st1 = st" if "?n \<notin> set (map fst (inst st))" using that absent by simp
    show "inst st1 = AList.delete ?n (inst st)" if "?n \<in> set (map fst (inst st))"
      using that bound by simp
    show "aliases st1 = get_aliases st1" if "?n \<in> set (map fst (inst st))"
      using that bound by simp
    show "getattr st1 ?n = map_of (cls st) ?n" by (rule other [OF refl])
    show "getattr st1 n = getattr st n" if "n \<noteq> ?n" for n using that by (rule rest [OF refl])
  qed
qed


text \<open>The definitions a concrete run of the example shells unfolds.\<close>

lemmas ex_eval =
  do_alias_def delattr_def getattr_def setattr_def hasattr_def wrap_alias_def ALIAS_PREFIX_def
  get_aliases_def get_names_def py_set_def startswith_def
  ex_shell_def ex_alias_q_def ex_class_alias_def ex_methods_def AliasCmdInterpreter_methods_def

lemma ex_alias_q_created:
  "do_alias ex_shell ''q quit'' False = Inr (Returned None, ex_alias_q)"
  by (simp add: ex_eval)

lemma ex_alias_q_deleted:
  "do_alias ex_alias_q ''q'' False = Inr (Returned None, ex_shell)"
  by (simp add: ex_eval)

text \<open>
  Claim C6, at the input where the code departs from it. In the shell whose class defines
  the alias \<open>q\<close>, the alias exists and is in the alias set, and the alias command with \<open>q\<close>
  and no target removes nothing: \<open>delattr\<close> on the instance raises \<open>AttributeError\<close>, which
  is passed over, the object is as before and \<open>q\<close> is still bound to the handler of
  \<open>quit\<close>. The claim says the first call removes the binding. The creating path of the
  same command does reach such an alias: \<open>alias q list\<close> rebinds \<open>q\<close> to the handler of
  \<open>list\<close>.
\<close>

theorem class_alias_not_removed:
  "getattr ex_class_alias (wrap_alias ''q'') = Some ex_quit
   \<and> do_alias ex_class_alias ''q'' False = Inr (Returned None, ex_class_alias)
   \<and> aliases ex_class_alias = get_aliases ex_class_alias
   \<and> do_alias ex_class_alias ''q list'' False =
       Inr (Returned None, ex_class_alias\<lparr>inst := [(''alias_q'', ex_list)]\<rparr>)
   \<and> getattr (ex_class_alias\<lparr>inst := [(''alias_q'', ex_list)]\<rparr>) (wrap_alias ''q'') = Some ex_list"
  by (simp add: ex_eval Let_def)


theorem alias_deletion_idempotent_witness:
  "do_alias ex_alias_q ''q'' False = Inr (Returned None, ex_shell)
   \<and> do_alias ex_shell ''q'' False = Inr (Returned None, ex_shell)
   \<and> getattr ex_shell (wrap_alias ''q'') = None
   \<and> do_alias ex_shell ''q nosuch'' True = Inr (Returned None, ex_shell)"
proof -
  have a1: "''q'' \<noteq> []" and a2: "CHR '' '' \<notin> set ''q''"
    by simp_all
  have a3: "''q'' = ''q'' \<or>
      (''q'' = ''q'' @ '' '' @ [] \<and> CHR '' '' \<notin> set [] \<and>
       getattr ex_alias_q (''do_'' @ []) = None \<and> getattr ex_alias_q (wrap_alias []) = None)"
    by simp
  from alias_deletion_idempotent [OF a1 a2 a3, of False]
  obtain st1 where
    first: "do_alias ex_alias_q ''q'' False = Inr (Returned None, st1)" and
    second: "do_alias st1 ''q'' False = Inr (Returned None, st1)"
    by (elim exE conjE)
  from first have st1: "st1 = ex_shell"
    by (simp add: ex_alias_q_deleted)
  have b3: "''q nosuch'' = ''q'' \<or>
      (''q nosuch'' = ''q'' @ '' '' @ ''nosuch'' \<and> CHR '' '' \<notin> set ''nosuch'' \<and>
       getattr ex_shell (''do_'' @ ''nosuch'') = None \<and>
       getattr ex_shell (wrap_alias ''nosuch'') = None)"
    by (simp add: ex_eval)
  have absent: "wrap_alias ''q'' \<notin> set (map fst (inst ex_shell))"
    by (simp add: ex_shell_def)
  from alias_deletion_idempotent [OF a1 a2 b3, of True]
  obtain st2 where
    third: "do_alias ex_shell ''q nosuch'' True = Inr (Returned None, st2)" and
    same: "wrap_alias ''q'' \<notin> set (map fst (inst ex_shell)) \<longrightarrow> st2 = ex_shell"
    by (elim exE conjE)
  from same absent have st2: "st2 = ex_shell"
    by (rule mp)
  have none: "getattr ex_shell (wrap_alias ''q'') = None"
    by (simp add: ex_eval)
  from first [unfolded st1] second [unfolded st1] none third [unfolded st2] show ?thesis
    by (intro conjI)
qed

section \<open>Name completion\<close>


lemma stripped_candidates:
  assumes "distinct names" and "\<And>a. P a \<Longrightarrow> prefix pre a"
  shows "distinct (map (drop (length pre)) (filter P names))"
    and "x \<in> set (map (drop (length pre)) (filter P names)) \<longleftrightarrow>
           pre @ x \<in> set names \<and> P (pre @ x)"
proof -
  have restore: "pre @ drop (length pre) a = a" if "P a" for a
    using assms(2) [OF that] by (auto simp: prefix_def)
  have "inj_on (drop (length pre)) (set (filter P names))"
  proof (rule inj_onI)
    fix a b
    assume "a \<in> set (filter P names)" "b \<in> set (filter P names)"
      and eq: "drop (length pre) a = drop (length pre) b"
    then have "P a" "P b" by simp_all
    then have "a = pre @ drop (length pre) a" "b = pre @ drop (length pre) b"
      by (simp_all add: restore)
    with eq show "a = b" by metis
  qed
  with assms(1) show "distinct (map (drop (length pre)) (filter P names))"
    by (simp add: distinct_map)
  show "x \<in> set (map (drop (length pre)) (filter P names)) \<longleftrightarrow>
           pre @ x \<in> set names \<and> P (pre @ x)"
  proof
    assume "x \<in> set (map (drop (length pre)) (filter P names))"
    then obtain a where a: "a \<in> set names" "P a" "x = drop (length pre) a"
      by auto
    then have "pre @ x = a" by (simp add: restore)
    with a show "pre @ x \<in> set names \<and> P (pre @ x)" by simp
  next
    assume "pre @ x \<in> set names \<and> P (pre @ x)"
    then have "pre @ x \<in> set (filter P names)" by simp
    then have "drop (length pre) (pre @ x) \<in> set (map (drop (length pre)) (filter P names))"
      unfolding set_map by (rule imageI)
    then show "x \<in> set (map (drop (length pre)) (filter P names))" by simp
  qed
qed

lemma completenames_split:
  "completenames st p = cmds_of st p @ (if SHOW_ALIAS st then aliases_of st p else [])"
  by (simp add: completenames_def cmds_of_def aliases_of_def Let_def)

lemma cmds_of_props:
  "distinct (cmds_of st p)" "x \<in> set (cmds_of st p) \<longleftrightarrow> command_candidate st p x"
proof -
  let ?P = "\<lambda>a. startswith a (''do_'' @ p) \<and> doc_not_None st a"
  have pre: "prefix ''do_'' a" if "?P a" for a
    using that by (auto simp: startswith_def prefix_def ALIAS_PREFIX_def)
  have three: "length ''do_'' = 3" by simp
  show "distinct (cmds_of st p)"
    using stripped_candidates(1) [OF distinct_get_names pre, of ?P]
    by (simp only: cmds_of_def three)
  have "x \<in> set (cmds_of st p) \<longleftrightarrow> ''do_'' @ x \<in> set (get_names st) \<and> ?P (''do_'' @ x)"
    using stripped_candidates(2) [OF distinct_get_names pre, of ?P x]
    by (simp only: cmds_of_def three)
  also have "\<dots> \<longleftrightarrow> command_candidate st p x"
    by (auto simp: in_get_names_iff command_candidate_def doc_not_None_def startswith_def
        split: option.splits)
  finally show "x \<in> set (cmds_of st p) \<longleftrightarrow> command_candidate st p x" .
qed

lemma aliases_of_props:
  "distinct (aliases_of st p)" "x \<in> set (aliases_of st p) \<longleftrightarrow> alias_candidate st p x"
proof -
  let ?P = "\<lambda>a. startswith a (ALIAS_PREFIX @ p) \<and> doc_not_None st a"
  have pre: "prefix ALIAS_PREFIX a" if "?P a" for a
    using that by (auto simp: startswith_def prefix_def ALIAS_PREFIX_def)
  have six: "length ALIAS_PREFIX = 6" by (simp add: ALIAS_PREFIX_def)
  show "distinct (aliases_of st p)"
    using stripped_candidates(1) [OF distinct_get_names pre, of ?P]
    by (simp only: aliases_of_def six)
  have "x \<in> set (aliases_of st p) \<longleftrightarrow> ALIAS_PREFIX @ x \<in> set (get_names st) \<and> ?P (ALIAS_PREFIX @ x)"
    using stripped_candidates(2) [OF distinct_get_names pre, of ?P x]
    by (simp only: aliases_of_def six)
  also have "\<dots> \<longleftrightarrow> alias_candidate st p x"
    by (auto simp: in_get_names_iff alias_candidate_def doc_not_None_def startswith_def
        wrap_alias_def split: option.splits)
  finally show "x \<in> set (aliases_of st p) \<longleftrightarrow> alias_candidate st p x" .
qed


lemma append_le_cancel: "(pre @ x \<le> pre @ y) = (x \<le> y)" for x y :: "'a::linorder list"
  by (induction pre) simp_all

lemma sorted_stripped:
  assumes "sorted names" and "\<And>a. P a \<Longrightarrow> prefix pre a"
  shows "sorted (map (drop (length pre)) (filter P names))"
  using assms(1)
proof (induction names)
  case Nil
  then show ?case by simp
next
  case (Cons a names)
  have le: "drop (length pre) a \<le> drop (length pre) b"
    if "P a" "P b" "a \<le> b" for b
  proof -
    from assms(2) [OF that(1)] obtain x where "a = pre @ x"
      by (auto simp: prefix_def)
    moreover from assms(2) [OF that(2)] obtain y where "b = pre @ y"
      by (auto simp: prefix_def)
    ultimately have "a = pre @ x" "b = pre @ y" .
    with that(3) show ?thesis by (simp add: append_le_cancel)
  qed
  from Cons show ?case
    by (auto simp: le)
qed

lemma restore_stripped:
  assumes "\<And>a. P a \<Longrightarrow> prefix pre a"
  shows "map ((@) pre) (map (drop (length pre)) (filter P names)) = filter P names"
proof -
  have "pre @ drop (length pre) a = a" if "P a" for a
    using assms [OF that] by (auto simp: prefix_def)
  then show ?thesis
    by (induction names) simp_all
qed

lemma cmds_of_order:
  "subseq (map ((@) ''do_'') (cmds_of st p)) (get_names st)" "sorted (cmds_of st p)"
proof -
  let ?P = "\<lambda>a. startswith a (''do_'' @ p) \<and> doc_not_None st a"
  have pre: "prefix ''do_'' a" if "?P a" for a
    using that by (auto simp: startswith_def prefix_def)
  have three: "length ''do_'' = 3" by simp
  have "map ((@) ''do_'') (cmds_of st p) = filter ?P (get_names st)"
    using restore_stripped [of ?P "''do_''", OF pre] by (simp only: cmds_of_def three)
  then show "subseq (map ((@) ''do_'') (cmds_of st p)) (get_names st)"
    by simp
  show "sorted (cmds_of st p)"
    using sorted_stripped [OF sorted_get_names pre, of ?P] by (simp only: cmds_of_def three)
qed

lemma aliases_of_order:
  "subseq (map wrap_alias (aliases_of st p)) (get_names st)" "sorted (aliases_of st p)"
proof -
  let ?P = "\<lambda>a. startswith a (ALIAS_PREFIX @ p) \<and> doc_not_None st a"
  have pre: "prefix ALIAS_PREFIX a" if "?P a" for a
    using that by (auto simp: startswith_def prefix_def)
  have six: "length ALIAS_PREFIX = 6" by (simp add: ALIAS_PREFIX_def)
  have w: "wrap_alias = (@) ALIAS_PREFIX"
    by (rule ext) (simp add: wrap_alias_def)
  have "map wrap_alias (aliases_of st p) = filter ?P (get_names st)"
    using restore_stripped [of ?P ALIAS_PREFIX, OF pre] by (simp only: aliases_of_def six w)
  then show "subseq (map wrap_alias (aliases_of st p)) (get_names st)"
    by simp
  show "sorted (aliases_of st p)"
    using sorted_stripped [OF sorted_get_names pre, of ?P] by (simp only: aliases_of_def six)
qed





text \<open>
  Claim C10. The list \<open>completenames\<close> returns is the command candidates followed by the
  alias candidates (none when \<open>SHOW_ALIAS\<close> is off): the first part holds exactly the command
  candidates and the second exactly the alias candidates, each part without repetition
  and in the order of the sorted attribute listing \<open>get_names\<close>, of which the prefixed
  names form a subsequence.
\<close>

theorem completenames_order:
  "\<exists>cmds als. completenames st p = cmds @ als
     \<and> (\<forall>c. c \<in> set cmds \<longleftrightarrow> command_candidate st p c)
     \<and> (\<forall>a. a \<in> set als \<longleftrightarrow> SHOW_ALIAS st \<and> alias_candidate st p a)
     \<and> subseq (map ((@) ''do_'') cmds) (get_names st)
     \<and> subseq (map wrap_alias als) (get_names st)
     \<and> sorted cmds \<and> distinct cmds \<and> sorted als \<and> distinct als"
proof (intro exI conjI allI)
  let ?als = "if SHOW_ALIAS st then aliases_of st p else []"
  show "completenames st p = cmds_of st p @ ?als"
    by (rule completenames_split)
  show "c \<in> set (cmds_of st p) \<longleftrightarrow> command_candidate st p c" for c
    by (rule cmds_of_props)
  show "a \<in> set ?als \<longleftrightarrow> SHOW_ALIAS st \<and> alias_candidate st p a" for a
    by (simp add: aliases_of_props)
  show "subseq (map ((@) ''do_'') (cmds_of st p)) (get_names st)"
    by (rule cmds_of_order)
  show "subseq (map wrap_alias ?als) (get_names st)"
    by (simp add: aliases_of_order)
  show "sorted (cmds_of st p)" by (rule cmds_of_order)
  show "distinct (cmds_of st p)" by (rule cmds_of_props)
  show "sorted ?als" by (simp add: aliases_of_order)
  show "distinct ?als" by (simp add: aliases_of_props)
qed


lemma ex_show_created:
  "do_alias (ex_shell\<lparr>SHOW_ALIAS := True\<rparr>) ''quit quit'' False = Inr (Returned None, ex_show)"
  by (simp add: ex_eval ex_show_def ex_quit_def)


lemma ex_shell_completenames:
  "completenames ex_shell [] = [''alias'', ''help'', ''quit'']"
  by (simp add: completenames_def doc_not_None_def ex_quit_def ex_list_def ex_eval)



section \<open>Help\<close>

lemma expandtabs_from_nonempty: "s \<noteq> [] \<Longrightarrow> expandtabs_from col s \<noteq> []"
  by (cases s) (auto simp: Let_def)

lemma splitlines_from_nonempty: "s \<noteq> [] \<Longrightarrow> splitlines_from cur s \<noteq> []"
  by (induction cur s rule: splitlines_from.induct) auto

lemma splitlines_expandtabs_nonempty: "docstring \<noteq> [] \<Longrightarrow> splitlines (expandtabs docstring) \<noteq> []"
  by (simp add: splitlines_def expandtabs_def expandtabs_from_nonempty splitlines_from_nonempty)

text \<open>
  Claim C9, as the code has it. For a topic \<open>arg\<close> that is not empty, \<open>do_help(arg)\<close> raises
  nothing and does what the help chain says: the help provider is called if there is one;
  else the doc string of the command \<open>arg\<close> is written if it yields help; else the doc
  string of the alias target if it yields help; else the \<open>nohelp\<close> message. The one
  exception: when a command \<open>arg\<close> exists and has no doc string, the alias is not looked
  at, and the \<open>nohelp\<close> message is written even if the alias target has a doc string.
\<close>

theorem do_help_chain:
  assumes "arg \<noteq> []"
  shows "do_help st arg =
           answer_effect st arg
             (if undocumented_command_shadows st arg then No_help else help_chain st arg)"
  using assms
  by (auto simp: do_help_def answer_effect_def help_chain_def undocumented_command_shadows_def
      doc_of_def doc_truthy_def split: option.splits)

lemma trim_docstring_exit: "trim_docstring ''exit'' = ''exit''"
  by (simp add: trim_docstring_def splitlines_def expandtabs_def min_indent_def strip_def
      lstrip_def rstrip_def isspace_def is_linebreak_def maxsize_def)

lemma ex_shadow_created:
  "do_alias ex_shell ''list quit'' False = Inr (Returned None, ex_shadow)"
  by (simp add: ex_eval ex_shadow_def ex_quit_def)

text \<open>
  Claim C9 as stated fails after \<open>alias list quit\<close> in the example shell: there is no help
  provider for \<open>list\<close>, the command \<open>list\<close> has no doc string, the alias target has the doc
  string \<open>exit\<close>, so the chain of the claim yields it, and \<open>do_help\<close> writes the \<open>nohelp\<close>
  message.
\<close>

theorem do_help_skips_alias:
  "getattr ex_shadow (''help_'' @ ''list'') = None
   \<and> doc_of (getattr ex_shadow (''do_'' @ ''list'')) = None
   \<and> doc_of (getattr ex_shadow (wrap_alias ''list'')) = Some ''exit''
   \<and> help_chain ex_shadow ''list'' = Doc_string ''exit''
   \<and> do_help ex_shadow ''list'' =
       (Returned None, stdout_write ex_shadow (''*** No help on list'' @ [newline]))"
  by (simp add: do_help_def help_chain_def doc_of_def doc_truthy_def nohelp_def ex_shadow_def
      ex_quit_def ex_list_def ex_eval)

theorem do_help_chain_witness:
  "do_help ex_shell ''quit'' = (Returned None, stdout_write ex_shell (''exit'' @ [newline]))
   \<and> do_help ex_alias_q ''q'' = (Returned None, stdout_write ex_alias_q (''exit'' @ [newline]))
   \<and> do_help ex_shell ''list'' =
       (Returned None, stdout_write ex_shell (''*** No help on list'' @ [newline]))"
proof -
  have ne: "''quit'' \<noteq> []" "''q'' \<noteq> []" "''list'' \<noteq> []"
    by simp_all
  have "do_help ex_shell ''quit'' = (Returned None, stdout_write ex_shell (''exit'' @ [newline]))"
    using do_help_chain [OF ne(1), of ex_shell]
    by (simp add: answer_effect_def help_chain_def undocumented_command_shadows_def doc_of_def
        doc_truthy_def trim_docstring_exit ex_quit_def ex_list_def ex_eval)
  moreover have "do_help ex_alias_q ''q'' =
      (Returned None, stdout_write ex_alias_q (''exit'' @ [newline]))"
    using do_help_chain [OF ne(2), of ex_alias_q]
    by (simp add: answer_effect_def help_chain_def undocumented_command_shadows_def doc_of_def
        doc_truthy_def trim_docstring_exit ex_quit_def ex_list_def ex_eval)
  moreover have "do_help ex_shell ''list'' =
       (Returned None, stdout_write ex_shell (''*** No help on list'' @ [newline]))"
    using do_help_chain [OF ne(3), of ex_shell]
    by (simp add: answer_effect_def help_chain_def undocumented_command_shadows_def doc_of_def
        doc_truthy_def nohelp_def ex_quit_def ex_list_def ex_eval)
  ultimately show ?thesis
    by (intro conjI)
qed

section \<open>Parsing and dispatch\<close>

lemma identchars_not_space: "c \<in> set identchars \<Longrightarrow> \<not> isspace c"
  by (auto simp: identchars_def isspace_def)

lemma identchars_not_special: "c \<in> set identchars \<Longrightarrow> c \<noteq> CHR ''!'' \<and> c \<noteq> CHR ''?'' \<and> c \<noteq> CHR '' ''"
  by (auto simp: identchars_def)

lemma rstrip_Nil_iff: "rstrip r = [] \<longleftrightarrow> (\<forall>x \<in> set r. isspace x)"
  by (simp add: rstrip_def)

lemma rstrip_append:
  "rstrip (a @ r) = (if \<forall>x \<in> set r. isspace x then rstrip a else a @ rstrip r)"
  by (simp add: rstrip_def dropWhile_append)

lemma rstrip_Cons:
  "rstrip (x # s) =
     (if \<forall>y \<in> set s. isspace y then (if isspace x then [] else [x]) else x # rstrip s)"
  using rstrip_append [of "[x]" s] by (simp add: rstrip_def)

lemma rstrip_keeps: "a \<noteq> [] \<Longrightarrow> \<not> isspace (last a) \<Longrightarrow> rstrip a = a"
proof -
  assume "a \<noteq> []" "\<not> isspace (last a)"
  then have "dropWhile isspace (rev a) = rev a"
    by (cases a rule: rev_cases) simp_all
  then show ?thesis by (simp add: rstrip_def)
qed

lemma rstrip_end: "rstrip s = [] \<or> \<not> isspace (last (rstrip s))"
proof (cases "dropWhile isspace (rev s)")
  case Nil
  then show ?thesis by (simp add: rstrip_def)
next
  case (Cons x xs)
  then have "\<not> isspace (hd (dropWhile isspace (rev s)))"
    using hd_dropWhile [of isspace "rev s"] by simp
  with Cons show ?thesis by (simp add: rstrip_def)
qed

lemma rstrip_rstrip: "rstrip (rstrip s) = rstrip s"
  using rstrip_end [of s] rstrip_keeps [of "rstrip s"] by (auto simp: rstrip_def)

lemma strip_rstrip: "strip (rstrip s) = strip s"
  by (simp add: strip_def rstrip_rstrip)

lemma rest_of_cases: "rest_of s = [] \<or> (\<exists>r. rest_of s = CHR '' '' # r)"
  by (simp add: rest_of_def)

lemma strip_rest_of: "strip (rest_of s) = strip s"
proof (cases "\<forall>x \<in> set s. isspace x")
  case True
  then have "rstrip s = []" by (simp add: rstrip_Nil_iff)
  then have "strip s = []" by (simp add: strip_def lstrip_def)
  moreover have "strip (rest_of s) = []"
    using True by (simp add: rest_of_def strip_def lstrip_def rstrip_def)
  ultimately show ?thesis by simp
next
  case False
  then have ne: "rstrip s \<noteq> []" by (simp add: rstrip_Nil_iff)
  then have "\<not> (\<forall>x \<in> set (rstrip s). isspace x)"
    using rstrip_rstrip [of s] rstrip_Nil_iff [of "rstrip s"] by simp
  then have "rstrip (CHR '' '' # rstrip s) = CHR '' '' # rstrip (rstrip s)"
    by (subst rstrip_Cons) (simp only: if_not_P if_False)
  then have "rstrip (CHR '' '' # rstrip s) = CHR '' '' # rstrip s"
    by (simp only: rstrip_rstrip)
  moreover have "rest_of s = CHR '' '' # rstrip s"
    using False by (simp only: rest_of_def if_not_P if_False)
  ultimately have "strip (rest_of s) = lstrip (CHR '' '' # rstrip s)"
    by (simp only: strip_def)
  also have "\<dots> = lstrip (rstrip s)"
    by (simp add: lstrip_def isspace_def)
  finally show ?thesis
    by (simp only: strip_def)
qed

lemma rest_of_rstrip: "rest_of (rstrip s) = rest_of s"
  using rstrip_Nil_iff [of s] rstrip_Nil_iff [of "rstrip s"]
  by (simp add: rest_of_def rstrip_rstrip)

lemma command_name_props:
  assumes "command_name a"
  shows "a \<noteq> []" "\<not> isspace (hd a)" "\<not> isspace (last a)" "hd a \<noteq> CHR ''!''" "hd a \<noteq> CHR ''?''"
    "takeWhile (\<lambda>x. x \<in> set identchars) a = a" "dropWhile (\<lambda>x. x \<in> set identchars) a = []"
    "CHR '' '' \<notin> set a"
proof -
  from assms have ne: "a \<noteq> []" and all: "\<forall>c \<in> set a. c \<in> set identchars"
    by (simp_all add: command_name_def list_all_iff)
  then have h: "hd a \<in> set identchars" and l: "last a \<in> set identchars"
    by simp_all
  show "a \<noteq> []" by (rule ne)
  show "\<not> isspace (hd a)" "\<not> isspace (last a)"
    using h l by (simp_all add: identchars_not_space)
  show "hd a \<noteq> CHR ''!''" "hd a \<noteq> CHR ''?''"
    using identchars_not_special [OF h] by simp_all
  show "takeWhile (\<lambda>x. x \<in> set identchars) a = a" "dropWhile (\<lambda>x. x \<in> set identchars) a = []"
    using all by simp_all
  show "CHR '' '' \<notin> set a"
  proof
    assume "CHR '' '' \<in> set a"
    with all have "CHR '' '' \<in> set identchars" by (rule bspec)
    from identchars_not_special [OF this] show False by simp
  qed
qed

lemma strip_command_line:
  assumes "command_name a"
  shows "strip (a @ CHR '' '' # s) = a @ rest_of s"
proof -
  note p = command_name_props [OF assms]
  have "rstrip (a @ CHR '' '' # s) = a @ rest_of s"
  proof (cases "\<forall>x \<in> set s. isspace x")
    case True
    then have "\<forall>x \<in> set (CHR '' '' # s). isspace x" by (simp add: isspace_def)
    then have "rstrip (a @ CHR '' '' # s) = rstrip a"
      by (subst rstrip_append) (simp only: if_P if_True)
    moreover have "rest_of s = []"
      using True by (simp only: rest_of_def if_P if_True)
    ultimately show ?thesis
      using rstrip_keeps [OF p(1) p(3)] by simp
  next
    case False
    then have "\<not> (\<forall>x \<in> set (CHR '' '' # s). isspace x)" by simp
    then have "rstrip (a @ CHR '' '' # s) = a @ rstrip (CHR '' '' # s)"
      by (subst rstrip_append) (simp only: if_not_P if_False)
    moreover have "rstrip (CHR '' '' # s) = CHR '' '' # rstrip s"
      using False by (subst rstrip_Cons) (simp only: if_not_P if_False)
    moreover have "rest_of s = CHR '' '' # rstrip s"
      using False by (simp only: rest_of_def if_not_P if_False)
    ultimately show ?thesis
      by simp
  qed
  moreover have "lstrip (a @ rest_of s) = a @ rest_of s"
    using p(1) p(2) by (cases a) (simp_all add: lstrip_def)
  ultimately show ?thesis by (simp add: strip_def)
qed

lemma strip_command_alone:
  assumes "command_name a"
  shows "strip a = a"
proof -
  note p = command_name_props [OF assms]
  have "lstrip a = a" using p(1) p(2) by (cases a) (simp_all add: lstrip_def)
  then show ?thesis by (simp add: strip_def rstrip_keeps [OF p(1) p(3)])
qed

lemma parseline_plain:
  assumes "strip l = c # rest" and "c \<noteq> CHR ''!''" and "c \<noteq> CHR ''?''"
  shows "parseline st l =
           (Some (takeWhile (\<lambda>x. x \<in> set identchars) (c # rest),
                  strip (dropWhile (\<lambda>x. x \<in> set identchars) (c # rest))), c # rest)"
  using assms(2,3)
  by (simp add: parseline_def assms(1) Let_def del: takeWhile.simps dropWhile.simps)

lemma parse_command_rest:
  assumes "command_name a" and "r = [] \<or> (\<exists>r'. r = CHR '' '' # r')" and "strip (a @ r) = a @ r"
  shows "parseline st (a @ r) = (Some (a, strip r), a @ r)"
proof -
  note p = command_name_props [OF assms(1)]
  obtain c cs where a: "a = c # cs" using p(1) by (cases a) auto
  have c: "c \<noteq> CHR ''!''" "c \<noteq> CHR ''?''" using p(4) p(5) a by simp_all
  have all: "x \<in> set identchars" if "x \<in> set a" for x
    using assms(1) that by (simp add: command_name_def list_all_iff)
  have sp: "CHR '' '' \<notin> set identchars"
    using identchars_not_special [of "CHR '' ''"] by blast
  have r: "takeWhile (\<lambda>x. x \<in> set identchars) r = []"
    "dropWhile (\<lambda>x. x \<in> set identchars) r = r"
    using assms(2) sp by auto
  have tw: "takeWhile (\<lambda>x. x \<in> set identchars) (a @ r) = a"
    using takeWhile_append2 [of a "\<lambda>x. x \<in> set identchars" r] all r(1) by simp
  have dw: "dropWhile (\<lambda>x. x \<in> set identchars) (a @ r) = r"
    using dropWhile_append2 [of a "\<lambda>x. x \<in> set identchars" r] all r(2) by simp
  have line: "strip (a @ r) = c # (cs @ r)"
    using assms(3) unfolding a by simp
  have shape: "c # (cs @ r) = a @ r"
    by (simp add: a)
  show ?thesis
    unfolding parseline_plain [OF line c] shape tw dw ..
qed


lemma parseline_strip: "strip l = strip l' \<Longrightarrow> parseline st l = parseline st l'"
  by (simp add: parseline_def)

lemma strip_stripped_command_line:
  assumes "command_name a"
  shows "strip (a @ rest_of s) = a @ rest_of s"
proof (cases "rest_of s = []")
  case True
  then show ?thesis by (simp add: strip_command_alone [OF assms])
next
  case False
  then have "rest_of s = CHR '' '' # rstrip s"
    by (simp add: rest_of_def split: if_splits)
  then show ?thesis
    using strip_command_line [OF assms, of "rstrip s"] by (simp add: rest_of_rstrip)
qed

lemma parseline_stripped:
  assumes "command_name a"
  shows "parseline st (a @ rest_of s) = (Some (a, strip s), a @ rest_of s)"
  using parse_command_rest [OF assms rest_of_cases [of s] strip_stripped_command_line [OF assms, of s], of st]
  by (simp only: strip_rest_of)

lemma parseline_command:
  assumes "command_name a"
  shows "parseline st (a @ CHR '' '' # s) = (Some (a, strip s), a @ rest_of s)"
proof -
  have "strip (a @ CHR '' '' # s) = strip (a @ rest_of s)"
    by (simp only: strip_command_line [OF assms] strip_stripped_command_line [OF assms])
  then have "parseline st (a @ CHR '' '' # s) = parseline st (a @ rest_of s)"
    by (rule parseline_strip)
  then show ?thesis
    by (simp only: parseline_stripped [OF assms])
qed

lemma getattr_lastcmd_update [simp]: "getattr (st\<lparr>lastcmd := l\<rparr>) n = getattr st n"
  by (simp add: getattr_def split: option.splits)

lemma get_names_lastcmd_update [simp]: "get_names (st\<lparr>lastcmd := l\<rparr>) = get_names st"
  by (simp add: get_names_def)

lemma filter_two_names:
  "distinct xs \<Longrightarrow> x \<in> set xs \<Longrightarrow> y \<notin> set xs \<Longrightarrow> filter (\<lambda>n. n = y \<or> n = x) xs = [x]"
proof (induction xs)
  case Nil
  then show ?case by simp
next
  case (Cons z xs)
  show ?case
  proof (cases "z = x")
    case True
    with Cons.prems have "filter (\<lambda>n. n = y \<or> n = x) xs = []"
      by (auto simp: filter_empty_conv)
    with True show ?thesis by simp
  next
    case False
    with Cons show ?thesis by auto
  qed
qed

lemma default_alias_only:
  assumes "command_name a" and "getattr st (''do_'' @ a) = None"
    and "getattr st (wrap_alias a) = Some h"
  shows "default st (a @ rest_of s) = Inr (Call h [strip s], st)"
proof -
  have "wrap_alias a \<in> set (get_names st)" "''do_'' @ a \<notin> set (get_names st)"
    using assms(2,3) by (simp_all add: in_get_names_iff)
  then have "filter (\<lambda>n. n = ''do_'' @ a \<or> n = wrap_alias a) (get_names st) = [wrap_alias a]"
    using filter_two_names [OF distinct_get_names] by blast
  then show ?thesis
    by (simp add: default_def parseline_stripped [OF assms(1)] assms(3))
qed

lemma onecmd_command_line:
  assumes "command_name a"
  shows "onecmd st (a @ CHR '' '' # s) =
     (case getattr st (''do_'' @ a) of
        None \<Rightarrow>
          default (st\<lparr>lastcmd := (if a @ rest_of s = ''EOF'' then [] else a @ rest_of s)\<rparr>)
            (a @ rest_of s)
      | Some func \<Rightarrow>
          Inr (Call func [strip s],
               st\<lparr>lastcmd := (if a @ rest_of s = ''EOF'' then [] else a @ rest_of s)\<rparr>))"
  using command_name_props(1) [OF assms]
  by (simp add: onecmd_def parseline_command [OF assms] Let_def)

section \<open>Dispatch through an alias\<close>

text \<open>
  Claim C4, as the code has it. Let \<open>A\<close> and \<open>T\<close> be names that \<open>parseline\<close> reads as one command
  (not empty, of letters, digits and underscores), \<open>T\<close> a command with handler \<open>h\<close>, and let
  the alias command bind \<open>A\<close> to \<open>T\<close>. Then \<open>alias_A\<close> holds \<open>h\<close>, and in every later state in
  which the alias is still bound as created, \<open>T\<close>'s handler is still \<open>h\<close> and \<open>A\<close> is not the name
  of a command, dispatching \<open>A S\<close> and dispatching \<open>T S\<close> come to the same thing for every
  argument string \<open>S\<close>: the call of \<open>h\<close> with the stripped \<open>S\<close>, whose output and return value
  are then those of that call.
\<close>

theorem alias_dispatch:
  assumes A: "command_name A" and T: "command_name T"
    and target: "getattr st (''do_'' @ T) = Some h"
    and created: "do_alias st (A @ '' '' @ T) suppress = Inr (r, st1)"
    and kept: "getattr st2 (wrap_alias A) = getattr st1 (wrap_alias A)"
    and same: "getattr st2 (''do_'' @ T) = Some h"
    and free: "getattr st2 (''do_'' @ A) = None"
  shows "getattr st1 (wrap_alias A) = Some h
         \<and> map_sum id fst (onecmd st2 (A @ '' '' @ S)) = Inr (Call h [strip S])
         \<and> map_sum id fst (onecmd st2 (T @ '' '' @ S)) = Inr (Call h [strip S])"
proof -
  have nosp: "CHR '' '' \<notin> set A" "CHR '' '' \<notin> set T"
    using command_name_props(8) A T by blast+
  have split: "split_on (CHR '' '') (A @ '' '' @ T) = A # T # []"
    using nosp by (simp add: split_on_first split_on_no_sep)
  have found: "(case getattr st (''do_'' @ T) of Some c \<Rightarrow> Some c
                | None \<Rightarrow> getattr st (wrap_alias T)) = Some h"
    unfolding target by simp
  have "A @ '' '' @ T \<noteq> []"
    by simp
  from do_alias_create [OF split this found, of suppress] created
  have st1: "st1 = (setattr st (wrap_alias A) h)\<lparr>aliases := get_aliases (setattr st (wrap_alias A) h)\<rparr>"
    by simp
  have bound: "getattr st1 (wrap_alias A) = Some h"
    by (simp add: st1 getattr_setattr)
  let ?upd = "\<lambda>a. st2\<lparr>lastcmd := (if a @ rest_of S = ''EOF'' then [] else a @ rest_of S)\<rparr>"
  have "onecmd st2 (A @ CHR '' '' # S) = default (?upd A) (A @ rest_of S)"
    unfolding onecmd_command_line [OF A] free by simp
  also have "\<dots> = Inr (Call h [strip S], ?upd A)"
    using free kept bound by (intro default_alias_only [OF A]) simp_all
  finally have via_alias: "map_sum id fst (onecmd st2 (A @ '' '' @ S)) = Inr (Call h [strip S])"
    by simp
  have "onecmd st2 (T @ CHR '' '' # S) = Inr (Call h [strip S], ?upd T)"
    unfolding onecmd_command_line [OF T] same by simp
  then have direct: "map_sum id fst (onecmd st2 (T @ '' '' @ S)) = Inr (Call h [strip S])"
    by simp
  from bound via_alias direct show ?thesis
    by (intro conjI)
qed

lemma ex_shadow_dispatch:
  "map_sum id fst (onecmd ex_shadow ''list x'') = Inr (Call ex_list [''x''])"
  "map_sum id fst (onecmd ex_shadow ''quit x'') = Inr (Call ex_quit [''x''])"
  by (simp_all add: onecmd_def parseline_def strip_def lstrip_def rstrip_def isspace_def
      identchars_def Let_def ex_shadow_def ex_eval)


text \<open>
  Claim C4 as stated fails for an alias that has the name of a command: after
  \<open>alias list quit\<close> the alias \<open>list\<close> is bound to the handler of \<open>quit\<close>, which has not been
  reassigned, yet dispatching \<open>list x\<close> calls the command \<open>list\<close> and dispatching \<open>quit x\<close>
  calls \<open>quit\<close>.
\<close>

theorem alias_shadowed_by_command:
  "do_alias ex_shell ''list quit'' False = Inr (Returned None, ex_shadow)
   \<and> getattr ex_shadow (wrap_alias ''list'') = Some ex_quit
   \<and> getattr ex_shadow ''do_quit'' = Some ex_quit
   \<and> map_sum id fst (onecmd ex_shadow ''list x'') = Inr (Call ex_list [''x''])
   \<and> map_sum id fst (onecmd ex_shadow ''quit x'') = Inr (Call ex_quit [''x''])
   \<and> ex_list \<noteq> ex_quit"
proof -
  have "getattr ex_shadow (wrap_alias ''list'') = Some ex_quit"
    "getattr ex_shadow ''do_quit'' = Some ex_quit"
    by (simp_all add: ex_shadow_def ex_eval)
  moreover have "ex_list \<noteq> ex_quit"
    by (simp add: ex_list_def ex_quit_def)
  ultimately show ?thesis
    using ex_shadow_created ex_shadow_dispatch by (intro conjI)
qed

lemma ex_strip_argument:
  "strip ''now  '' = ''now''"
  by (simp add: strip_def lstrip_def rstrip_def isspace_def)

theorem alias_dispatch_witness:
  "getattr ex_alias_q (wrap_alias ''q'') = Some ex_quit
   \<and> map_sum id fst (onecmd ex_alias_q ''q now  '') = Inr (Call ex_quit [''now''])
   \<and> map_sum id fst (onecmd ex_alias_q ''quit now  '') = Inr (Call ex_quit [''now''])"
proof -
  have names: "command_name ''q''" "command_name ''quit''"
    by (simp_all add: command_name_def identchars_def)
  have target: "getattr ex_shell (''do_'' @ ''quit'') = Some ex_quit"
    by (simp add: ex_eval)
  have created: "do_alias ex_shell (''q'' @ '' '' @ ''quit'') False = Inr (Returned None, ex_alias_q)"
    using ex_alias_q_created by simp
  have same: "getattr ex_alias_q (''do_'' @ ''quit'') = Some ex_quit"
    by (simp add: ex_eval)
  have free: "getattr ex_alias_q (''do_'' @ ''q'') = None"
    by (simp add: ex_eval)
  from alias_dispatch [OF names target created refl same free, of "''now  ''"]
  show ?thesis
    by (simp add: ex_strip_argument)
qed

section \<open>The alias listing and its round trip\<close>










section \<open>The alias set as an index of the bound aliases\<close>

lemma in_get_aliases_iff: "a \<in> set (get_aliases st) \<longleftrightarrow> hasattr st (wrap_alias a)"
proof -
  let ?P = "\<lambda>i. startswith i ALIAS_PREFIX"
  have pre: "prefix ALIAS_PREFIX i" if "?P i" for i
    using that by (simp add: startswith_def)
  have six: "length ALIAS_PREFIX = 6"
    by (simp add: ALIAS_PREFIX_def)
  have "a \<in> set (get_aliases st) \<longleftrightarrow>
      ALIAS_PREFIX @ a \<in> set (get_names st) \<and> ?P (ALIAS_PREFIX @ a)"
    using stripped_candidates(2) [OF distinct_get_names pre, of ?P a]
    by (simp only: get_aliases_def py_set_def set_remdups six)
  then show ?thesis
    by (simp add: in_get_names_iff hasattr_def wrap_alias_def startswith_def)
qed

lemma synced_aliases_bound: "aliases st = get_aliases st \<Longrightarrow> aliases_bound st"
  by (simp add: aliases_bound_def list_all_iff in_get_aliases_iff)

text \<open>
  The part of claim C5 that the alias command keeps: a call with an argument either
  leaves the object as it is or ends with \<open>aliases\<close> equal to \<open>get_aliases()\<close>.
\<close>

theorem do_alias_syncs_alias_set:
  assumes "do_alias st arg suppress = Inr (r, st')" and "arg \<noteq> []"
  shows "aliases st' = get_aliases st' \<or> st' = st"
  using assms
  by (auto simp: do_alias_def delattr_def Let_def split: list.splits option.splits if_splits)

theorem do_alias_syncs_alias_set_witness:
  "aliases ex_alias_q = get_aliases ex_alias_q \<and> ex_alias_q \<noteq> ex_shell"
proof -
  have "''q quit'' \<noteq> []" by simp
  from do_alias_syncs_alias_set [OF ex_alias_q_created this]
  have "aliases ex_alias_q = get_aliases ex_alias_q \<or> ex_alias_q = ex_shell" .
  moreover have "ex_alias_q \<noteq> ex_shell"
    by (simp add: ex_alias_q_def ex_shell_def)
  ultimately show ?thesis by simp
qed

lemma aliases_bound_init: "aliases_bound (AliasMix_init class_methods show_alias)"
  by (rule synced_aliases_bound) (simp add: AliasMix_init_def Let_def get_aliases_def get_names_def)

lemma aliases_bound_default_alias:
  assumes "default_alias st force = Inr st'" and "aliases_bound st"
  shows "aliases_bound st'"
proof -
  from assms(1) have "st' = st \<or> (\<exists>m. st' = setattr st (wrap_alias ''a'') m)"
    by (auto simp: default_alias_def split: if_splits option.splits)
  moreover have "aliases_bound (setattr st n m)" for n m
    using assms(2)
    by (auto simp: aliases_bound_def list_all_iff hasattr_def getattr_setattr)
       (simp add: setattr_def)
  ultimately show ?thesis
    using assms(2) by auto
qed

lemma getattr_stdout_update [simp]: "getattr (st\<lparr>stdout := s\<rparr>) n = getattr st n"
  by (simp add: getattr_def split: option.splits)

lemma aliases_bound_do_alias:
  assumes "do_alias st arg suppress = Inr (r, st')" and "aliases_bound st"
  shows "aliases_bound st'"
proof (cases "arg = []")
  case True
  with assms(1) have "st' = st \<or> (\<exists>s. st' = stdout_write st s)"
    by (auto simp: do_alias_def split: sum.splits if_splits)
  moreover have "aliases_bound (stdout_write st s)" for s
    using assms(2)
    by (simp add: aliases_bound_def hasattr_def stdout_write_def)
  ultimately show ?thesis
    using assms(2) by auto
next
  case False
  from do_alias_syncs_alias_set [OF assms(1) False] show ?thesis
    using assms(2) synced_aliases_bound by auto
qed

text \<open>
  The members of the alias set are bound aliases after construction, seeding included,
  and stay so through every call of the alias command; so the listing never raises
  \<open>AttributeError\<close> for a member without attribute.
\<close>

theorem alias_set_members_bound:
  "(AliasCmdInterpreter_init enable force class_methods show_alias = Inr st \<longrightarrow> aliases_bound st)
   \<and> (aliases_bound st \<and> do_alias st arg suppress = Inr (r, st') \<longrightarrow> aliases_bound st')"
proof (intro conjI impI)
  assume "AliasCmdInterpreter_init enable force class_methods show_alias = Inr st"
  then show "aliases_bound st"
    using aliases_bound_init [of class_methods show_alias]
      aliases_bound_default_alias [of "AliasMix_init class_methods show_alias" force st]
    by (auto simp: AliasCmdInterpreter_init_def Let_def split: if_splits)
next
  assume "aliases_bound st \<and> do_alias st arg suppress = Inr (r, st')"
  then show "aliases_bound st'"
    using aliases_bound_do_alias by blast
qed

theorem alias_set_members_bound_witness:
  "aliases_bound ex_alias_q"
proof -
  have "aliases_bound ex_shell"
    by (simp add: aliases_bound_def ex_shell_def)
  with alias_set_members_bound [of True False ex_methods False ex_shell "''q quit''" False
      "Returned None" ex_alias_q] ex_alias_q_created
  show ?thesis by simp
qed

end
